theory Spec2Isabelle
  imports Complex_Main "HOL-Library.Word"
begin

text \<open>
  The projection and tiling engine of the panorama to cubemap converter: the client
  converter \<open>PanoramaConverter\<close> (\<open>src/components/panorama-converter.tsx\<close>) and the two
  versions of the server converter \<open>ServerPanoramaConverter\<close> (\<open>src/unnamed/part_000\<close>,
  and the one with logging that follows the page in \<open>src/app/page.tsx\<close>). Where a
  function has the same text in several of them it is modelled once, and the
  definition says so; the functions compared with each other are modelled one by one.
\<close>

section \<open>Numbers of the source language\<close>

text \<open>
  The converter is written in TypeScript, whose numbers are IEEE doubles. The model
  has them twice. In the first sections they are ideal real numbers, extended by the
  two special values the code can produce and react to: the negative zero (the result
  of negating a zero, which \<open>Math.atan2\<close> tells apart from the positive zero) and NaN
  (the result of \<open>0 / 0\<close>, and of arithmetic on an \<open>undefined\<close> array element).
  \<open>Num 0\<close> is the positive zero. This is the arithmetic of the projection and of the
  first model of the sampler and the rasterizer. What depends on rounding, the indices
  and the blend of the sampler, is stated of a second model, in double arithmetic:
  the section on it defines the rounding of a real number to the nearest double, and
  the sampler with every operation rounded. Overflow and the infinities are not
  modelled.
\<close>

datatype num = Num real | NegZero | NaN

fun num_val :: "num \<Rightarrow> real" where
  "num_val (Num r) = r"
| "num_val NegZero = 0"
| "num_val NaN = 0"

fun is_NaN :: "num \<Rightarrow> bool" where
  "is_NaN NaN = True"
| "is_NaN _ = False"

text \<open>Unary minus on a number that is not the negative zero.\<close>

definition js_neg :: "real \<Rightarrow> num" where
  "js_neg r = (if r = 0 then NegZero else Num (- r))"

text \<open>Addition: the sum of two negative zeros is the negative zero, any other zero sum is positive.\<close>

fun js_add :: "num \<Rightarrow> num \<Rightarrow> num" where
  "js_add NaN _ = NaN"
| "js_add _ NaN = NaN"
| "js_add NegZero NegZero = NegZero"
| "js_add a b = Num (num_val a + num_val b)"

text \<open>Division by a number \<open>d\<close> that is positive.\<close>

fun js_div_pos :: "num \<Rightarrow> real \<Rightarrow> num" where
  "js_div_pos NaN d = NaN"
| "js_div_pos NegZero d = NegZero"
| "js_div_pos (Num r) d = Num (r / d)"

text \<open>
  Division by a number \<open>d \<ge> 0\<close> of a dividend that is zero whenever \<open>d\<close> is
  (the only such division of the source is by the length of a vector of which the
  dividend is a component): \<open>0 / 0\<close> is NaN.
\<close>

definition js_div_norm :: "num \<Rightarrow> real \<Rightarrow> num" where
  "js_div_norm a d = (if d = 0 then NaN else js_div_pos a d)"

text \<open>
  \<open>Math.atan2(y, x)\<close> after ECMA-262: a zero \<open>y\<close> gives a zero of its own sign when
  \<open>x\<close> is positive or the positive zero, and \<open>\<pi>\<close> of its own sign otherwise.
\<close>

fun Math_atan2 :: "num \<Rightarrow> num \<Rightarrow> num" where
  "Math_atan2 NaN x = NaN"
| "Math_atan2 y NaN = NaN"
| "Math_atan2 NegZero NegZero = Num (- pi)"
| "Math_atan2 NegZero (Num x) = (if 0 \<le> x then NegZero else Num (- pi))"
| "Math_atan2 (Num y) NegZero =
     (if y = 0 then Num pi else if 0 < y then Num (pi / 2) else Num (- pi / 2))"
| "Math_atan2 (Num y) (Num x) =
     (if y = 0 then (if 0 \<le> x then Num 0 else Num pi)
      else if x = 0 then (if 0 < y then Num (pi / 2) else Num (- pi / 2))
      else if 0 < x then Num (arctan (y / x))
      else if 0 < y then Num (arctan (y / x) + pi)
      else Num (arctan (y / x) - pi))"

text \<open>\<open>Math.acos\<close>: NaN outside \<open>[-1, 1]\<close>.\<close>

fun Math_acos :: "num \<Rightarrow> num" where
  "Math_acos NaN = NaN"
| "Math_acos a = (if - 1 \<le> num_val a \<and> num_val a \<le> 1 then Num (arccos (num_val a)) else NaN)"

text \<open>\<open>Math.max(0, Math.min(1, u))\<close>: \<open>Math.max\<close> takes the positive zero over the negative one.\<close>

fun clamp01 :: "num \<Rightarrow> num" where
  "clamp01 NaN = NaN"
| "clamp01 NegZero = Num 0"
| "clamp01 (Num r) = Num (max 0 (min 1 r))"

text \<open>\<open>Math.round\<close>: the nearest integer, a tie going up; the negative zero for \<open>[-0.5, 0)\<close>.\<close>

fun Math_round :: "num \<Rightarrow> num" where
  "Math_round NaN = NaN"
| "Math_round NegZero = NegZero"
| "Math_round (Num r) = (if - (1 / 2) \<le> r \<and> r < 0 then NegZero else Num (of_int \<lfloor>r + 1 / 2\<rfloor>))"

text \<open>
  A store into a \<open>Uint8ClampedArray\<close> (ToUint8Clamp): NaN becomes 0, the value is
  clamped to \<open>[0, 255]\<close> and rounded to the nearest integer, a tie going to the even one.
\<close>

definition round_half_even :: "real \<Rightarrow> int" where
  "round_half_even r =
     (let f = \<lfloor>r\<rfloor> in
      if of_int f + 1 / 2 < r then f + 1
      else if r < of_int f + 1 / 2 then f
      else if even f then f else f + 1)"

fun toUint8Clamp :: "num \<Rightarrow> 8 word" where
  "toUint8Clamp NaN = 0"
| "toUint8Clamp NegZero = 0"
| "toUint8Clamp (Num r) =
     (if r \<le> 0 then 0 else if 255 \<le> r then 255 else word_of_int (round_half_even r))"

section \<open>Projection: cube face coordinates to equirectangular coordinates\<close>

text \<open>
  \<open>faceUVToEquirectangular\<close> of the server converter. The arguments \<open>u\<close> and \<open>v\<close> are
  numbers (the callers pass \<open>x / size\<close>), so \<open>2 * u - 1\<close> is never the negative zero;
  the negations \<open>-uc\<close> and \<open>-vc\<close> may be. The \<open>default\<close> branch of the \<open>switch\<close>
  sets the three components to 0.
\<close>

definition faceUVToEquirectangular :: "int \<Rightarrow> real \<Rightarrow> real \<Rightarrow> num \<times> num" where
  "faceUVToEquirectangular face u v =
     (let uc = 2 * u - 1;
          vc = 2 * v - 1;
          (x, y, z) =
            (if face = 0 then (Num 1, js_neg vc, js_neg uc)
             else if face = 1 then (Num (- 1), js_neg vc, Num uc)
             else if face = 2 then (Num uc, Num 1, Num vc)
             else if face = 3 then (Num uc, Num (- 1), js_neg vc)
             else if face = 4 then (Num uc, js_neg vc, Num 1)
             else if face = 5 then (js_neg uc, js_neg vc, Num (- 1))
             else (Num 0, Num 0, Num 0));
          theta = Math_atan2 z x;
          phi = Math_acos (js_div_norm y
                  (sqrt (num_val x * num_val x + num_val y * num_val y + num_val z * num_val z)));
          eqU = js_div_pos (js_add theta (Num pi)) (2 * pi);
          eqV = js_div_pos phi pi
      in (eqU, eqV))"

text \<open>The same function of the client converter (\<open>PanoramaConverter\<close>).\<close>

definition client_faceUVToEquirectangular :: "int \<Rightarrow> real \<Rightarrow> real \<Rightarrow> num \<times> num" where
  "client_faceUVToEquirectangular face u v =
     (let uc = 2 * u - 1;
          vc = 2 * v - 1;
          (x, y, z) =
            (if face = 0 then (Num 1, js_neg vc, js_neg uc)
             else if face = 1 then (Num (- 1), js_neg vc, Num uc)
             else if face = 2 then (Num uc, Num 1, Num vc)
             else if face = 3 then (Num uc, Num (- 1), js_neg vc)
             else if face = 4 then (Num uc, js_neg vc, Num 1)
             else if face = 5 then (js_neg uc, js_neg vc, Num (- 1))
             else (Num 0, Num 0, Num 0));
          theta = Math_atan2 z x;
          phi = Math_acos (js_div_norm y
                  (sqrt (num_val x * num_val x + num_val y * num_val y + num_val z * num_val z)));
          eqU = js_div_pos (js_add theta (Num pi)) (2 * pi);
          eqV = js_div_pos phi pi
      in (eqU, eqV))"

text \<open>
  The direction table of the specification (section 4.1), for the signed coordinates
  \<open>uc\<close> and \<open>vc\<close>; a negated coordinate is written with the negation of the source
  language.
\<close>

definition spec_direction :: "int \<Rightarrow> real \<Rightarrow> real \<Rightarrow> num \<times> num \<times> num" where
  "spec_direction face uc vc =
     (if face = 0 then (Num 1, js_neg vc, js_neg uc)
      else if face = 1 then (Num (- 1), js_neg vc, Num uc)
      else if face = 2 then (Num uc, Num 1, Num vc)
      else if face = 3 then (Num uc, Num (- 1), js_neg vc)
      else if face = 4 then (Num uc, js_neg vc, Num 1)
      else (js_neg uc, js_neg vc, Num (- 1)))"

section \<open>Bilinear sampling\<close>

text \<open>
  The pixel buffer of an \<open>ImageData\<close> is a \<open>Uint8ClampedArray\<close>: a read at an index
  that is not one of its elements is \<open>undefined\<close>, which the arithmetic that follows
  turns into NaN.
\<close>

definition readByte :: "8 word list \<Rightarrow> int \<Rightarrow> num" where
  "readByte d idx = (if 0 \<le> idx \<and> idx < int (length d) then Num (real (unat (d ! nat idx))) else NaN)"

fun lerp4 :: "real \<Rightarrow> real \<Rightarrow> num \<Rightarrow> num \<Rightarrow> num \<Rightarrow> num \<Rightarrow> num" where
  "lerp4 fx fy c1 c2 c3 c4 =
     (if is_NaN c1 \<or> is_NaN c2 \<or> is_NaN c3 \<or> is_NaN c4 then NaN
      else
        let i1 = num_val c1 * (1 - fx) + num_val c2 * fx;
            i2 = num_val c3 * (1 - fx) + num_val c4 * fx
        in Num (i1 * (1 - fy) + i2 * fy))"

text \<open>
  \<open>sampleEquirectangularBilinear\<close> of the server converter. With a NaN coordinate
  every index is NaN, every read \<open>undefined\<close> and every channel NaN.
\<close>

definition sampleEquirectangularBilinear ::
    "8 word list \<Rightarrow> num \<Rightarrow> num \<Rightarrow> nat \<Rightarrow> nat \<Rightarrow> num \<times> num \<times> num" where
  "sampleEquirectangularBilinear imgData u0 v0 width height =
     (let u = clamp01 u0;
          v = clamp01 v0
      in if is_NaN u \<or> is_NaN v then (NaN, NaN, NaN)
      else
        let x = num_val u * (real width - 1);
            y = num_val v * (real height - 1);
            x1 = \<lfloor>x\<rfloor>;
            y1 = \<lfloor>y\<rfloor>;
            x2 = min (x1 + 1) (int width - 1);
            y2 = min (y1 + 1) (int height - 1);
            fx = x - of_int x1;
            fy = y - of_int y1;
            getPixel = (\<lambda>px py.
              let idx = (py * int width + px) * 4
              in (readByte imgData idx, readByte imgData (idx + 1), readByte imgData (idx + 2)));
            p11 = getPixel x1 y1;
            p21 = getPixel x2 y1;
            p12 = getPixel x1 y2;
            p22 = getPixel x2 y2;
            interpolate = lerp4 fx fy
        in (Math_round (interpolate (fst p11) (fst p21) (fst p12) (fst p22)),
            Math_round (interpolate (fst (snd p11)) (fst (snd p21)) (fst (snd p12)) (fst (snd p22))),
            Math_round (interpolate (snd (snd p11)) (snd (snd p21)) (snd (snd p12)) (snd (snd p22)))))"

text \<open>The same function of the client converter.\<close>

definition client_sampleEquirectangularBilinear ::
    "8 word list \<Rightarrow> num \<Rightarrow> num \<Rightarrow> nat \<Rightarrow> nat \<Rightarrow> num \<times> num \<times> num" where
  "client_sampleEquirectangularBilinear imgData u0 v0 width height =
     (let u = clamp01 u0;
          v = clamp01 v0
      in if is_NaN u \<or> is_NaN v then (NaN, NaN, NaN)
      else
        let x = num_val u * (real width - 1);
            y = num_val v * (real height - 1);
            x1 = \<lfloor>x\<rfloor>;
            y1 = \<lfloor>y\<rfloor>;
            x2 = min (x1 + 1) (int width - 1);
            y2 = min (y1 + 1) (int height - 1);
            fx = x - of_int x1;
            fy = y - of_int y1;
            getPixel = (\<lambda>px py.
              let idx = (py * int width + px) * 4
              in (readByte imgData idx, readByte imgData (idx + 1), readByte imgData (idx + 2)));
            p11 = getPixel x1 y1;
            p21 = getPixel x2 y1;
            p12 = getPixel x1 y2;
            p22 = getPixel x2 y2;
            interpolate = lerp4 fx fy
        in (Math_round (interpolate (fst p11) (fst p21) (fst p12) (fst p22)),
            Math_round (interpolate (fst (snd p11)) (fst (snd p21)) (fst (snd p12)) (fst (snd p22))),
            Math_round (interpolate (snd (snd p11)) (snd (snd p21)) (snd (snd p12)) (snd (snd p22)))))"

text \<open>
  For the statements about the sampler: channel \<open>c\<close> of the pixel \<open>(px, py)\<close> of an
  RGBA buffer of the given width, and the bilinear blend of four corner values.
\<close>

definition channel :: "8 word list \<Rightarrow> nat \<Rightarrow> int \<Rightarrow> int \<Rightarrow> int \<Rightarrow> real" where
  "channel imgData width px py c = real (unat (imgData ! nat ((py * int width + px) * 4 + c)))"

definition bilinear :: "real \<Rightarrow> real \<Rightarrow> real \<Rightarrow> real \<Rightarrow> real \<Rightarrow> real \<Rightarrow> real" where
  "bilinear fx fy c1 c2 c3 c4 = (c1 * (1 - fx) + c2 * fx) * (1 - fy) + (c3 * (1 - fx) + c4 * fx) * fy"

section \<open>Double arithmetic\<close>

text \<open>
  The rounding of a real number to the nearest double (IEEE 754 binary64, rounding to
  nearest, a tie going to the double whose last bit is even). A double has 53
  significant bits: from \<open>2 ^ e\<close> to \<open>2 ^ (e + 1)\<close> the doubles are the multiples of
  \<open>2 ^ (e - 52)\<close>, and below \<open>2 ^ -1022\<close> they are the multiples of \<open>2 ^ -1074\<close>.
  \<open>ulp_exponent x\<close> is the exponent of that spacing at \<open>x\<close>. The result of an
  addition, a subtraction or a multiplication of doubles is the rounding of the exact
  result. Overflow is not modelled: the numbers of the sampler are below \<open>2 ^ 53\<close>.
\<close>

definition ulp_exponent :: "real \<Rightarrow> int" where
  "ulp_exponent x = max \<lfloor>log 2 \<bar>x\<bar>\<rfloor> (- 1022) - 52"

definition to_double :: "real \<Rightarrow> real" where
  "to_double x =
     (if x = 0 then 0
      else of_int (round_half_even (x / 2 powr of_int (ulp_exponent x))) * 2 powr of_int (ulp_exponent x))"

text \<open>
  \<open>sampleEquirectangularBilinear\<close> in double arithmetic: every multiplication,
  addition and subtraction on the coordinates and on the channel values is rounded.
  \<open>Math.max\<close>, \<open>Math.min\<close>, \<open>Math.floor\<close> and \<open>Math.round\<close> are exact, and so is
  the arithmetic on \<open>width - 1\<close>, on \<open>x1 + 1\<close> and on the indices of the buffer: these
  are integers below \<open>2 ^ 53\<close>, as the length of a typed array is.
\<close>

fun lerp4_double :: "real \<Rightarrow> real \<Rightarrow> num \<Rightarrow> num \<Rightarrow> num \<Rightarrow> num \<Rightarrow> num" where
  "lerp4_double fx fy c1 c2 c3 c4 =
     (if is_NaN c1 \<or> is_NaN c2 \<or> is_NaN c3 \<or> is_NaN c4 then NaN
      else
        let i1 = to_double (to_double (num_val c1 * to_double (1 - fx)) + to_double (num_val c2 * fx));
            i2 = to_double (to_double (num_val c3 * to_double (1 - fx)) + to_double (num_val c4 * fx))
        in Num (to_double (to_double (i1 * to_double (1 - fy)) + to_double (i2 * fy))))"

definition sampleEquirectangularBilinear_double ::
    "8 word list \<Rightarrow> num \<Rightarrow> num \<Rightarrow> nat \<Rightarrow> nat \<Rightarrow> num \<times> num \<times> num" where
  "sampleEquirectangularBilinear_double imgData u0 v0 width height =
     (let u = clamp01 u0;
          v = clamp01 v0
      in if is_NaN u \<or> is_NaN v then (NaN, NaN, NaN)
      else
        let x = to_double (num_val u * (real width - 1));
            y = to_double (num_val v * (real height - 1));
            x1 = \<lfloor>x\<rfloor>;
            y1 = \<lfloor>y\<rfloor>;
            x2 = min (x1 + 1) (int width - 1);
            y2 = min (y1 + 1) (int height - 1);
            fx = to_double (x - of_int x1);
            fy = to_double (y - of_int y1);
            getPixel = (\<lambda>px py.
              let idx = (py * int width + px) * 4
              in (readByte imgData idx, readByte imgData (idx + 1), readByte imgData (idx + 2)));
            p11 = getPixel x1 y1;
            p21 = getPixel x2 y1;
            p12 = getPixel x1 y2;
            p22 = getPixel x2 y2;
            interpolate = lerp4_double fx fy
        in (Math_round (interpolate (fst p11) (fst p21) (fst p12) (fst p22)),
            Math_round (interpolate (fst (snd p11)) (fst (snd p21)) (fst (snd p12)) (fst (snd p22))),
            Math_round (interpolate (snd (snd p11)) (snd (snd p21)) (snd (snd p12)) (snd (snd p22)))))"

text \<open>The blend of four corner values as \<open>interpolate\<close> computes it in doubles.\<close>

definition bilinear_double :: "real \<Rightarrow> real \<Rightarrow> real \<Rightarrow> real \<Rightarrow> real \<Rightarrow> real \<Rightarrow> real" where
  "bilinear_double fx fy c1 c2 c3 c4 =
     to_double
       (to_double (to_double (to_double (c1 * to_double (1 - fx)) + to_double (c2 * fx)) * to_double (1 - fy)) +
        to_double (to_double (to_double (c3 * to_double (1 - fx)) + to_double (c4 * fx)) * fy))"

section \<open>Rasterizing a cube face\<close>

text \<open>
  The source image as the converter sees it: its width, its height, and the RGBA
  bytes that drawing it on a canvas and \<open>getImageData\<close> yield (four bytes a pixel,
  row by row). An image is valid when both sides are positive and the buffer has
  \<open>4 * width * height\<close> bytes.
\<close>

record image =
  img_width :: nat
  img_height :: nat
  img_data :: "8 word list"

definition valid_image :: "image \<Rightarrow> bool" where
  "valid_image img =
     (0 < img_width img \<and> 0 < img_height img \<and>
      length (img_data img) = 4 * img_width img * img_height img)"

text \<open>
  What the converter can throw: \<open>createImageData\<close> with a side of 0 (IndexSizeError),
  and \<open>convertToBlob\<close> when the encoder fails.
\<close>

datatype error = IndexSizeError | EncodingError

text \<open>
  \<open>generateCubeFace\<close> of the server converter (both versions of it, and the client's,
  have these loops): \<open>createImageData\<close> gives \<open>size * size * 4\<close> zero bytes, the two
  loops write the four bytes of every pixel. A store at an index outside a typed array
  is ignored, as \<open>list_update\<close> does. The coordinates are \<open>x / size\<close> and \<open>y / size\<close>
  (the parameter \<open>size\<close> is written \<open>size'\<close>).
\<close>

definition generateCubeFace :: "image \<Rightarrow> int \<Rightarrow> nat \<Rightarrow> error + 8 word list" where
  "generateCubeFace img face size' =
     (if size' = 0 then Inl IndexSizeError
      else
        let imgData = img_data img;
            faceData = replicate (size' * size' * 4) 0
        in Inr (fold (\<lambda>y faceData.
             fold (\<lambda>x faceData.
               let (u, v) = faceUVToEquirectangular face (real x / real size') (real y / real size');
                   pixel = sampleEquirectangularBilinear imgData u v (img_width img) (img_height img);
                   idx = (y * size' + x) * 4
               in faceData[idx := toUint8Clamp (fst pixel),
                           idx + 1 := toUint8Clamp (fst (snd pixel)),
                           idx + 2 := toUint8Clamp (snd (snd pixel)),
                           idx + 3 := 255])
               [0..<size'] faceData)
             [0..<size'] faceData))"

text \<open>
  What the loops of \<open>generateCubeFace\<close> compute for the pixel \<open>(x, y)\<close>, and what the
  specification (section 4.4) asks for, with the coordinates of the pixel centre.
\<close>

definition facePixel :: "image \<Rightarrow> int \<Rightarrow> nat \<Rightarrow> nat \<Rightarrow> nat \<Rightarrow> num \<times> num \<times> num" where
  "facePixel img face size' x y =
     (let (u, v) = faceUVToEquirectangular face (real x / real size') (real y / real size')
      in sampleEquirectangularBilinear (img_data img) u v (img_width img) (img_height img))"

definition spec_facePixel :: "image \<Rightarrow> int \<Rightarrow> nat \<Rightarrow> nat \<Rightarrow> nat \<Rightarrow> num \<times> num \<times> num" where
  "spec_facePixel img face size' x y =
     (let (u, v) = faceUVToEquirectangular face ((real x + 1 / 2) / real size') ((real y + 1 / 2) / real size')
      in sampleEquirectangularBilinear (img_data img) u v (img_width img) (img_height img))"

text \<open>
  \<open>generateCubeFace\<close> with the sampler in double arithmetic. The projection is left
  in ideal arithmetic, from which its doubles differ in the last bits: what is stated
  of this definition, the value sampled from a flat image, is proved of the sampler at
  all coordinates.
\<close>

definition generateCubeFace_double :: "image \<Rightarrow> int \<Rightarrow> nat \<Rightarrow> error + 8 word list" where
  "generateCubeFace_double img face size' =
     (if size' = 0 then Inl IndexSizeError
      else
        let imgData = img_data img;
            faceData = replicate (size' * size' * 4) 0
        in Inr (fold (\<lambda>y faceData.
             fold (\<lambda>x faceData.
               let (u, v) = faceUVToEquirectangular face (real x / real size') (real y / real size');
                   pixel = sampleEquirectangularBilinear_double imgData u v (img_width img) (img_height img);
                   idx = (y * size' + x) * 4
               in faceData[idx := toUint8Clamp (fst pixel),
                           idx + 1 := toUint8Clamp (fst (snd pixel)),
                           idx + 2 := toUint8Clamp (snd (snd pixel)),
                           idx + 3 := 255])
               [0..<size'] faceData)
             [0..<size'] faceData))"

definition facePixel_double :: "image \<Rightarrow> int \<Rightarrow> nat \<Rightarrow> nat \<Rightarrow> nat \<Rightarrow> num \<times> num \<times> num" where
  "facePixel_double img face size' x y =
     (let (u, v) = faceUVToEquirectangular face (real x / real size') (real y / real size')
      in sampleEquirectangularBilinear_double (img_data img) u v (img_width img) (img_height img))"

text \<open>A buffer of RGBA pixels that all have the red, green and blue values \<open>r\<close>, \<open>g\<close>, \<open>b\<close>.\<close>

fun uniform_rgb :: "8 word list \<Rightarrow> 8 word \<Rightarrow> 8 word \<Rightarrow> 8 word \<Rightarrow> bool" where
  "uniform_rgb (r' # g' # b' # a # rest) r g b = (r' = r \<and> g' = g \<and> b' = b \<and> uniform_rgb rest r g b)"
| "uniform_rgb rest r g b = True"

text \<open>
  Two small images for the examples: a strip of nine pixels in a row, the red value
  of pixel \<open>i\<close> being \<open>10 * i\<close>, and the flat image of 4 by 2 pixels of the
  specification's scenario.
\<close>

definition strip9 :: image where
  "strip9 = \<lparr>img_width = 9, img_height = 1,
     img_data = [0, 0, 0, 255, 10, 0, 0, 255, 20, 0, 0, 255, 30, 0, 0, 255, 40, 0, 0, 255,
                 50, 0, 0, 255, 60, 0, 0, 255, 70, 0, 0, 255, 80, 0, 0, 255]\<rparr>"

definition flat4x2 :: image where
  "flat4x2 = \<lparr>img_width = 4, img_height = 2,
     img_data = [128, 64, 32, 255, 128, 64, 32, 255, 128, 64, 32, 255, 128, 64, 32, 255,
                 128, 64, 32, 255, 128, 64, 32, 255, 128, 64, 32, 255, 128, 64, 32, 255]\<rparr>"

section \<open>Slicing a face into tiles\<close>

text \<open>
  A level of the pyramid (\<open>TileConfig\<close>; the fields are \<open>tileSize\<close>, \<open>size\<close> and the
  optional \<open>fallbackOnly\<close>), and the fixed table of both server converters.
\<close>

record TileConfig =
  cfg_tileSize :: nat
  cfg_size :: nat
  cfg_fallbackOnly :: "bool option"

definition tileConfigs :: "TileConfig list" where
  "tileConfigs =
     [\<lparr>cfg_tileSize = 256, cfg_size = 256, cfg_fallbackOnly = Some True\<rparr>,
      \<lparr>cfg_tileSize = 512, cfg_size = 512, cfg_fallbackOnly = None\<rparr>,
      \<lparr>cfg_tileSize = 512, cfg_size = 1024, cfg_fallbackOnly = None\<rparr>,
      \<lparr>cfg_tileSize = 512, cfg_size = 2048, cfg_fallbackOnly = None\<rparr>]"

definition faceNames :: "char list" where
  "faceNames = [CHR ''r'', CHR ''l'', CHR ''u'', CHR ''d'', CHR ''f'', CHR ''b'']"

text \<open>\<open>Math.ceil(config.size / config.tileSize)\<close>, for a tile size that is not 0.\<close>

definition tilesPerSide :: "TileConfig \<Rightarrow> nat" where
  "tilesPerSide config = nat \<lceil>real (cfg_size config) / real (cfg_tileSize config)\<rceil>"

text \<open>
  The offsets and extents of \<open>createTile\<close>. The tile coordinates are loop counters, so
  the numbers are naturals; where \<open>faceSize - sourceX\<close> would be negative the copy loop
  does not run, as with the extent 0 of the truncated subtraction.
\<close>

definition sourceX :: "TileConfig \<Rightarrow> nat \<Rightarrow> nat" where
  "sourceX config tileX = tileX * cfg_tileSize config"

definition sourceY :: "TileConfig \<Rightarrow> nat \<Rightarrow> nat" where
  "sourceY config tileY = tileY * cfg_tileSize config"

definition sourceWidth :: "TileConfig \<Rightarrow> nat \<Rightarrow> nat \<Rightarrow> nat" where
  "sourceWidth config faceSize tileX = min (cfg_tileSize config) (faceSize - sourceX config tileX)"

definition sourceHeight :: "TileConfig \<Rightarrow> nat \<Rightarrow> nat \<Rightarrow> nat" where
  "sourceHeight config faceSize tileY = min (cfg_tileSize config) (faceSize - sourceY config tileY)"

text \<open>
  A read of the face buffer that is stored into the tile buffer: \<open>undefined\<close>, read
  outside the buffer, is stored as 0.
\<close>

definition readStore :: "8 word list \<Rightarrow> nat \<Rightarrow> 8 word" where
  "readStore d i = (if i < length d then d ! i else 0)"

text \<open>
  The pixels of a tile in \<open>createTile\<close> of \<open>src/app/page.tsx\<close> (the server converter
  with logging): the tile buffer is filled with opaque black, then the valid region
  is copied, each pixel under the guard on the source index.
\<close>

definition createTile_tileData :: "8 word list \<Rightarrow> nat \<Rightarrow> nat \<Rightarrow> TileConfig \<Rightarrow> nat \<Rightarrow> 8 word list" where
  "createTile_tileData faceImageData tileX tileY config faceSize =
     (let ts = cfg_tileSize config;
          sX = sourceX config tileX;
          sY = sourceY config tileY;
          tileData0 = replicate (ts * ts * 4) 0;
          tileData1 = fold (\<lambda>j tileData.
              let i = 4 * j
              in tileData[i := 0, i + 1 := 0, i + 2 := 0, i + 3 := 255])
            [0..<(length tileData0 + 3) div 4] tileData0
      in fold (\<lambda>y tileData.
           fold (\<lambda>x tileData.
             let sourceIdx = ((sY + y) * faceSize + (sX + x)) * 4;
                 tileIdx = (y * ts + x) * 4
             in if sourceIdx + 3 < length faceImageData
                then tileData[tileIdx := readStore faceImageData sourceIdx,
                              tileIdx + 1 := readStore faceImageData (sourceIdx + 1),
                              tileIdx + 2 := readStore faceImageData (sourceIdx + 2),
                              tileIdx + 3 := readStore faceImageData (sourceIdx + 3)]
                else tileData)
             [0..<sourceWidth config faceSize tileX] tileData)
           [0..<sourceHeight config faceSize tileY] tileData1)"

text \<open>
  The pixels of a tile in \<open>createTile\<close> of \<open>src/unnamed/part_000\<close> (the server
  converter without logging): no fill, no guard.
\<close>

definition createTile_part000_tileData ::
    "8 word list \<Rightarrow> nat \<Rightarrow> nat \<Rightarrow> TileConfig \<Rightarrow> nat \<Rightarrow> 8 word list" where
  "createTile_part000_tileData faceImageData tileX tileY config faceSize =
     (let ts = cfg_tileSize config;
          sX = sourceX config tileX;
          sY = sourceY config tileY;
          tileData0 = replicate (ts * ts * 4) 0
      in fold (\<lambda>y tileData.
           fold (\<lambda>x tileData.
             let sourceIdx = ((sY + y) * faceSize + (sX + x)) * 4;
                 tileIdx = (y * ts + x) * 4
             in tileData[tileIdx := readStore faceImageData sourceIdx,
                         tileIdx + 1 := readStore faceImageData (sourceIdx + 1),
                         tileIdx + 2 := readStore faceImageData (sourceIdx + 2),
                         tileIdx + 3 := readStore faceImageData (sourceIdx + 3)])
             [0..<sourceWidth config faceSize tileX] tileData)
           [0..<sourceHeight config faceSize tileY] tileData0)"

text \<open>
  The JPEG encoder (\<open>canvas.convertToBlob\<close>) is outside the converter: a function of
  the canvas pixels and the quality that returns the bytes, or \<open>None\<close> when the
  promise is rejected. \<open>createTile\<close> of \<open>src/app/page.tsx\<close> encodes at quality 1.0
  and, in the \<open>catch\<close>, once more at quality 0.9; a second failure is thrown on.
\<close>

type_synonym encoder = "8 word list \<Rightarrow> real \<Rightarrow> 8 word list option"

definition createTile ::
    "encoder \<Rightarrow> 8 word list \<Rightarrow> nat \<Rightarrow> nat \<Rightarrow> TileConfig \<Rightarrow> nat \<Rightarrow> error + 8 word list" where
  "createTile convertToBlob faceImageData tileX tileY config faceSize =
     (if cfg_tileSize config = 0 then Inl IndexSizeError
      else
        let tileData = createTile_tileData faceImageData tileX tileY config faceSize
        in case convertToBlob tileData 1 of
             Some blob \<Rightarrow> Inr blob
           | None \<Rightarrow>
               (case convertToBlob tileData (9 / 10) of
                  Some blob \<Rightarrow> Inr blob
                | None \<Rightarrow> Inl EncodingError))"

text \<open>\<open>createTile\<close> of \<open>src/unnamed/part_000\<close> encodes once, at quality 1.0.\<close>

definition createTile_part000 ::
    "encoder \<Rightarrow> 8 word list \<Rightarrow> nat \<Rightarrow> nat \<Rightarrow> TileConfig \<Rightarrow> nat \<Rightarrow> error + 8 word list" where
  "createTile_part000 convertToBlob faceImageData tileX tileY config faceSize =
     (if cfg_tileSize config = 0 then Inl IndexSizeError
      else
        let tileData = createTile_part000_tileData faceImageData tileX tileY config faceSize
        in case convertToBlob tileData 1 of
             Some blob \<Rightarrow> Inr blob
           | None \<Rightarrow> Inl EncodingError)"

text \<open>
  For the examples: a level with faces of 3 pixels and tiles of 2, a face buffer of
  3 by 3 pixels whose byte \<open>i\<close> is \<open>i\<close>, and an encoder that never fails (it returns the
  pixels as they are).
\<close>

definition cfg_3_2 :: TileConfig where
  "cfg_3_2 = \<lparr>cfg_tileSize = 2, cfg_size = 3, cfg_fallbackOnly = None\<rparr>"

definition face3 :: "8 word list" where
  "face3 = map of_nat [0..<36]"

definition keep_pixels :: encoder where
  "keep_pixels tileData quality = Some tileData"

text \<open>An encoder that fails at quality 1.0 and works at any other quality.\<close>

definition reject_full_quality :: encoder where
  "reject_full_quality tileData quality = (if quality = 1 then None else Some tileData)"

section \<open>The pyramid driver\<close>

text \<open>
  A loop whose body can throw: the first exception ends it. The results of the
  iterations are collected in order.
\<close>

fun for_each :: "('a \<Rightarrow> error + 'b) \<Rightarrow> 'a list \<Rightarrow> error + 'b list" where
  "for_each f [] = Inr []"
| "for_each f (x # xs) =
     (case f x of
        Inl e \<Rightarrow> Inl e
      | Inr y \<Rightarrow> (case for_each f xs of Inl e \<Rightarrow> Inl e | Inr ys \<Rightarrow> Inr (y # ys)))"

text \<open>
  A tile key \<open>z/f/y/x\<close>: the level, the letter of the face, the row and the column.
  The result of a conversion: the tiles in the order of their creation (the entries
  of the archive; its serialization and \<open>config.json\<close> are left out) and the counts.
\<close>

type_synonym tile_key = "nat \<times> char \<times> nat \<times> nat"

record conversion =
  zipBuffer :: "(tile_key \<times> 8 word list) list"
  totalTiles :: nat
  zoomLevels :: int
  maxZoom :: int

text \<open>
  The two inner loops of \<open>processImage\<close>, which split one face into tiles, with the
  function that makes a tile as a parameter.
\<close>

definition sliceFace ::
    "(8 word list \<Rightarrow> nat \<Rightarrow> nat \<Rightarrow> TileConfig \<Rightarrow> nat \<Rightarrow> error + 8 word list) \<Rightarrow>
     8 word list \<Rightarrow> TileConfig \<Rightarrow> nat \<Rightarrow> nat \<Rightarrow> char \<Rightarrow> error + (tile_key \<times> 8 word list) list list" where
  "sliceFace mkTile faceImageData config faceSize z faceName =
     for_each (\<lambda>y.
       for_each (\<lambda>x.
         case mkTile faceImageData x y config faceSize of
           Inl e \<Rightarrow> Inl e
         | Inr tileBuffer \<Rightarrow> Inr ((z, faceName, y, x), tileBuffer))
         [0..<tilesPerSide config])
       [0..<tilesPerSide config]"

text \<open>
  \<open>processImage\<close>, parametric in \<open>createTile\<close>: the two server converters differ in
  nothing else (the \<open>try\<close> of the version with logging logs the exception and throws
  it again).
\<close>

definition processImage_with ::
    "(8 word list \<Rightarrow> nat \<Rightarrow> nat \<Rightarrow> TileConfig \<Rightarrow> nat \<Rightarrow> error + 8 word list) \<Rightarrow> image \<Rightarrow> error + conversion" where
  "processImage_with mkTile img =
     (let maxZoom = int (length tileConfigs) - 1;
          zoomLevels = maxZoom + 1;
          totalTiles = fold (\<lambda>z totalTiles.
              let config = tileConfigs ! z;
                  tilesPerSide = tilesPerSide config
              in totalTiles + 6 * tilesPerSide * tilesPerSide)
            [0..<nat (maxZoom + 1)] 0
      in case
           for_each (\<lambda>z.
             let config = tileConfigs ! z;
                 faceSize = cfg_size config
             in for_each (\<lambda>face.
                  case generateCubeFace img (int face) faceSize of
                    Inl e \<Rightarrow> Inl e
                  | Inr faceImageData \<Rightarrow>
                      sliceFace mkTile faceImageData config faceSize z (faceNames ! face))
                  [0..<6])
             [0..<nat (maxZoom + 1)]
         of
           Inl e \<Rightarrow> Inl e
         | Inr tiles \<Rightarrow>
             Inr \<lparr>zipBuffer = concat (concat (concat tiles)),
                  totalTiles = totalTiles, zoomLevels = zoomLevels, maxZoom = maxZoom\<rparr>)"

definition processImage :: "encoder \<Rightarrow> image \<Rightarrow> error + conversion" where
  "processImage convertToBlob img = processImage_with (createTile convertToBlob) img"

definition processImage_part000 :: "encoder \<Rightarrow> image \<Rightarrow> error + conversion" where
  "processImage_part000 convertToBlob img = processImage_with (createTile_part000 convertToBlob) img"

section \<open>The projection stays on the unit square\<close>

lemma arctan_bounds_pi:
  "- pi \<le> arctan t" "arctan t \<le> pi"
  using arctan_lbound [of t] arctan_ubound [of t] pi_gt_zero by linarith+

lemma half_pi_bounds: "- (pi / 2) \<le> pi" "pi / 2 \<le> pi" "- pi \<le> pi / 2" "- pi \<le> pi"
  using pi_gt_zero by linarith+

lemma Math_atan2_Num:
  "\<not> is_NaN (Math_atan2 (Num y) (Num x)) \<and> - pi \<le> num_val (Math_atan2 (Num y) (Num x)) \<and>
     num_val (Math_atan2 (Num y) (Num x)) \<le> pi"
proof -
  have neg: "arctan (y / x) < 0" if "0 < y" "x < 0"
    using that by (simp add: divide_pos_neg)
  have pos: "0 < arctan (y / x)" if "y < 0" "x < 0"
    using that by (simp add: divide_neg_neg)
  show ?thesis
    using arctan_bounds_pi [of "y / x"] arctan_lbound [of "y / x"] arctan_ubound [of "y / x"]
      neg pos pi_gt_zero
    by (auto simp: not_less not_le)
qed

lemma Math_atan2_range:
  assumes "\<not> is_NaN y" "\<not> is_NaN x"
  shows "\<not> is_NaN (Math_atan2 y x) \<and> - pi \<le> num_val (Math_atan2 y x) \<and> num_val (Math_atan2 y x) \<le> pi"
proof (cases y)
  case (Num a)
  show ?thesis
  proof (cases x)
    case (Num b)
    with \<open>y = Num a\<close> show ?thesis using Math_atan2_Num [of a b] by simp
  next
    case NegZero
    with \<open>y = Num a\<close> show ?thesis by (auto simp: half_pi_bounds)
  next
    case NaN
    with assms show ?thesis by simp
  qed
next
  case NegZero
  then show ?thesis using assms by (cases x) (auto simp: half_pi_bounds)
next
  case NaN
  with assms show ?thesis by simp
qed

lemma js_add_pi: "\<not> is_NaN t \<Longrightarrow> js_add t (Num pi) = Num (num_val t + pi)"
  by (cases t) simp_all

lemma Math_acos_quot:
  assumes "\<not> is_NaN y" "0 < d" "\<bar>num_val y\<bar> \<le> d"
  shows "Math_acos (js_div_norm y d) = Num (arccos (num_val y / d))"
proof -
  have q: "- 1 \<le> num_val y / d \<and> num_val y / d \<le> 1"
    using assms by (simp add: pos_le_divide_eq pos_divide_le_eq abs_le_iff)
  show ?thesis
    using assms q by (cases y) (simp_all add: js_div_norm_def)
qed

lemma component_le_norm: "\<bar>b\<bar> \<le> sqrt (a * a + b * b + c * c)"
proof -
  have "b\<^sup>2 \<le> a * a + b * b + c * c"
    by (simp add: power2_eq_square)
  then have "sqrt (b\<^sup>2) \<le> sqrt (a * a + b * b + c * c)"
    by (rule real_sqrt_le_mono)
  then show ?thesis by simp
qed

lemma spec_direction_props:
  assumes "spec_direction face uc vc = (x, y, z)"
  shows "\<not> is_NaN x \<and> \<not> is_NaN y \<and> \<not> is_NaN z \<and>
         1 \<le> num_val x * num_val x + num_val y * num_val y + num_val z * num_val z"
  using assms by (auto simp: spec_direction_def js_neg_def split: if_splits)

lemma faceUV_spec_direction:
  assumes "0 \<le> face" "face \<le> 5"
  shows "faceUVToEquirectangular face u v =
     (case spec_direction face (2 * u - 1) (2 * v - 1) of (x, y, z) \<Rightarrow>
        (js_div_pos (js_add (Math_atan2 z x) (Num pi)) (2 * pi),
         js_div_pos (Math_acos (js_div_norm y
            (sqrt (num_val x * num_val x + num_val y * num_val y + num_val z * num_val z)))) pi))"
proof -
  from assms have "face = 0 \<or> face = 1 \<or> face = 2 \<or> face = 3 \<or> face = 4 \<or> face = 5" by arith
  then show ?thesis
    by (elim disjE) (simp_all add: faceUVToEquirectangular_def spec_direction_def Let_def)
qed

section \<open>The sampler in ideal arithmetic\<close>

lemma clamp01_Num:
  assumes "\<not> is_NaN u0"
  shows "\<exists>u. clamp01 u0 = Num u \<and> 0 \<le> u \<and> u \<le> 1"
  using assms by (cases u0) auto

lemma floor_index_bounds:
  assumes "0 \<le> u" "u \<le> 1" "1 \<le> w"
  shows "0 \<le> \<lfloor>u * (real w - 1)\<rfloor>" "\<lfloor>u * (real w - 1)\<rfloor> \<le> int w - 1"
proof -
  have w0: "0 \<le> real w - 1" using assms(3) by simp
  show "0 \<le> \<lfloor>u * (real w - 1)\<rfloor>" using assms(1) w0 by simp
  have "u * (real w - 1) \<le> 1 * (real w - 1)"
    using assms(2) w0 by (rule mult_right_mono)
  then have "u * (real w - 1) \<le> real w - 1" by simp
  then have "\<lfloor>u * (real w - 1)\<rfloor> \<le> \<lfloor>real w - 1\<rfloor>"
    by (rule floor_mono)
  also have "\<lfloor>real w - 1\<rfloor> = int w - 1"
    by (metis floor_diff_one floor_of_nat)
  finally show "\<lfloor>u * (real w - 1)\<rfloor> \<le> int w - 1" .
qed

lemma pixel_index_in_range:
  assumes "0 \<le> px" "px < int w" "0 \<le> py" "py < int h" "0 \<le> k" "k < 4"
  shows "0 \<le> (py * int w + px) * 4 + k" "(py * int w + px) * 4 + k < int (4 * w * h)"
proof -
  have "0 \<le> py * int w" using assms(3) by simp
  then show "0 \<le> (py * int w + px) * 4 + k" using assms(1,5) by simp
  have "(py + 1) * int w \<le> int h * int w"
    using assms(4) by (intro mult_right_mono) simp_all
  then have "py * int w + px < int h * int w"
    using assms(2) by (simp add: algebra_simps)
  then show "(py * int w + px) * 4 + k < int (4 * w * h)"
    using assms(6) by (simp add: algebra_simps)
qed

lemma readByte_pixel:
  assumes "length d = 4 * w * h" "0 \<le> px" "px < int w" "0 \<le> py" "py < int h" "0 \<le> k" "k < 4"
  shows "readByte d ((py * int w + px) * 4 + k) = Num (channel d w px py k)"
  using pixel_index_in_range [OF assms(2-7)] assms(1)
  by (simp add: readByte_def channel_def)

lemma lerp4_Num: "lerp4 fx fy (Num c1) (Num c2) (Num c3) (Num c4) = Num (bilinear fx fy c1 c2 c3 c4)"
  by (simp add: bilinear_def Let_def)

lemma sample_unfold:
  assumes "clamp01 u0 = Num u" "clamp01 v0 = Num v"
    and "x1 = \<lfloor>u * (real width - 1)\<rfloor>" "y1 = \<lfloor>v * (real height - 1)\<rfloor>"
    and "x2 = min (x1 + 1) (int width - 1)" "y2 = min (y1 + 1) (int height - 1)"
    and "fx = u * (real width - 1) - of_int x1" "fy = v * (real height - 1) - of_int y1"
  shows "sampleEquirectangularBilinear d u0 v0 width height =
    (Math_round (lerp4 fx fy (readByte d ((y1 * int width + x1) * 4)) (readByte d ((y1 * int width + x2) * 4))
        (readByte d ((y2 * int width + x1) * 4)) (readByte d ((y2 * int width + x2) * 4))),
     Math_round (lerp4 fx fy (readByte d ((y1 * int width + x1) * 4 + 1)) (readByte d ((y1 * int width + x2) * 4 + 1))
        (readByte d ((y2 * int width + x1) * 4 + 1)) (readByte d ((y2 * int width + x2) * 4 + 1))),
     Math_round (lerp4 fx fy (readByte d ((y1 * int width + x1) * 4 + 2)) (readByte d ((y1 * int width + x2) * 4 + 2))
        (readByte d ((y2 * int width + x1) * 4 + 2)) (readByte d ((y2 * int width + x2) * 4 + 2))))"
  unfolding sampleEquirectangularBilinear_def Let_def assms by simp

lemma sample_in_bounds:
  assumes w: "1 \<le> width" and h: "1 \<le> height" and len: "length d = 4 * width * height"
    and cu: "clamp01 u0 = Num u" and cv: "clamp01 v0 = Num v"
    and u: "0 \<le> u" "u \<le> 1" and v: "0 \<le> v" "v \<le> 1"
    and x1: "x1 = \<lfloor>u * (real width - 1)\<rfloor>" and y1: "y1 = \<lfloor>v * (real height - 1)\<rfloor>"
    and x2: "x2 = min (x1 + 1) (int width - 1)" and y2: "y2 = min (y1 + 1) (int height - 1)"
    and fx: "fx = u * (real width - 1) - of_int x1" and fy: "fy = v * (real height - 1) - of_int y1"
  shows "sampleEquirectangularBilinear d u0 v0 width height =
    (Math_round (Num (bilinear fx fy (channel d width x1 y1 0) (channel d width x2 y1 0)
        (channel d width x1 y2 0) (channel d width x2 y2 0))),
     Math_round (Num (bilinear fx fy (channel d width x1 y1 1) (channel d width x2 y1 1)
        (channel d width x1 y2 1) (channel d width x2 y2 1))),
     Math_round (Num (bilinear fx fy (channel d width x1 y1 2) (channel d width x2 y1 2)
        (channel d width x1 y2 2) (channel d width x2 y2 2))))"
    and "0 \<le> x1 \<and> x1 < int width \<and> 0 \<le> x2 \<and> x2 < int width"
    and "0 \<le> y1 \<and> y1 < int height \<and> 0 \<le> y2 \<and> y2 < int height"
proof -
  have bx: "0 \<le> x1" "x1 \<le> int width - 1" unfolding x1 using floor_index_bounds [OF u w] by simp_all
  have yb: "0 \<le> y1" "y1 \<le> int height - 1" unfolding y1 using floor_index_bounds [OF v h] by simp_all
  show X: "0 \<le> x1 \<and> x1 < int width \<and> 0 \<le> x2 \<and> x2 < int width"
    using bx w unfolding x2 by simp
  show Y: "0 \<le> y1 \<and> y1 < int height \<and> 0 \<le> y2 \<and> y2 < int height"
    using yb h unfolding y2 by simp
  have r: "readByte d ((py * int width + px) * 4 + k) = Num (channel d width px py k)"
    if "px = x1 \<or> px = x2" "py = y1 \<or> py = y2" "k = 0 \<or> k = 1 \<or> k = 2" for px py k
    using that X Y by (intro readByte_pixel [OF len]) auto
  have r0: "readByte d ((py * int width + px) * 4) = Num (channel d width px py 0)"
    if "px = x1 \<or> px = x2" "py = y1 \<or> py = y2" for px py
    using r [OF that, of 0] by simp
  show "sampleEquirectangularBilinear d u0 v0 width height =
    (Math_round (Num (bilinear fx fy (channel d width x1 y1 0) (channel d width x2 y1 0)
        (channel d width x1 y2 0) (channel d width x2 y2 0))),
     Math_round (Num (bilinear fx fy (channel d width x1 y1 1) (channel d width x2 y1 1)
        (channel d width x1 y2 1) (channel d width x2 y2 1))),
     Math_round (Num (bilinear fx fy (channel d width x1 y1 2) (channel d width x2 y1 2)
        (channel d width x1 y2 2) (channel d width x2 y2 2))))"
    unfolding sample_unfold [OF cu cv x1 y1 x2 y2 fx fy]
    by (simp only: r r0 lerp4_Num simp_thms)
qed

lemma Math_round_nat: "Math_round (Num (real n)) = Num (real n)"
proof -
  have "\<lfloor>real n + 1 / 2\<rfloor> = int n" by linarith
  then show ?thesis by simp
qed

lemma bilinear_00: "bilinear 0 0 c1 c2 c3 c4 = c1"
  by (simp add: bilinear_def)

lemma Math_round_channel:
  "Math_round (Num (channel imgData width px py c)) = Num (channel imgData width px py c)"
  unfolding channel_def by (rule Math_round_nat)

lemma sample_top_left:
  assumes "1 \<le> width" "1 \<le> height" "length imgData = 4 * width * height" "a \<le> 0" "b \<le> 0"
  shows "sampleEquirectangularBilinear imgData (Num a) (Num b) width height =
           (Num (channel imgData width 0 0 0), Num (channel imgData width 0 0 1),
            Num (channel imgData width 0 0 2))"
proof -
  from assms(4,5) have c: "clamp01 (Num a) = Num 0" "clamp01 (Num b) = Num 0" by simp_all
  show ?thesis
    by (subst sample_in_bounds(1) [OF assms(1-3) c _ _ _ _ refl refl refl refl refl refl])
       (simp_all add: bilinear_00 Math_round_channel del: Math_round.simps)
qed

lemma sample_bottom_right:
  assumes "1 \<le> width" "1 \<le> height" "length imgData = 4 * width * height" "1 \<le> a" "1 \<le> b"
  shows "sampleEquirectangularBilinear imgData (Num a) (Num b) width height =
           (Num (channel imgData width (int width - 1) (int height - 1) 0),
            Num (channel imgData width (int width - 1) (int height - 1) 1),
            Num (channel imgData width (int width - 1) (int height - 1) 2))"
proof -
  from assms(4,5) have c: "clamp01 (Num a) = Num 1" "clamp01 (Num b) = Num 1" by simp_all
  have fl: "\<lfloor>real n - 1\<rfloor> = int n - 1" for n
    by (metis floor_diff_one floor_of_nat)
  show ?thesis
    by (subst sample_in_bounds(1) [OF assms(1-3) c _ _ _ _ refl refl refl refl refl refl])
       (simp_all add: bilinear_00 Math_round_channel fl del: Math_round.simps)
qed

text \<open>
  Claim C8. On a source buffer of \<open>width \<times> height\<close> pixels, \<open>width \<ge> 1\<close> and
  \<open>height \<ge> 1\<close>, the sampler returns at \<open>u = v = 0\<close> (and at any coordinates clamped
  to 0) exactly the pixel \<open>(0, 0)\<close>, and at \<open>u = v = 1\<close> (and at any coordinates clamped
  to 1) exactly the pixel \<open>(width - 1, height - 1)\<close>: nothing is blended.
\<close>

theorem sampler_corners_exact:
  assumes "1 \<le> width" "1 \<le> height" "length imgData = 4 * width * height"
    and "a \<le> 0" "b \<le> 0" "1 \<le> a'" "1 \<le> b'"
  shows "sampleEquirectangularBilinear imgData (Num a) (Num b) width height =
           (Num (channel imgData width 0 0 0), Num (channel imgData width 0 0 1),
            Num (channel imgData width 0 0 2)) \<and>
         sampleEquirectangularBilinear imgData (Num a') (Num b') width height =
           (Num (channel imgData width (int width - 1) (int height - 1) 0),
            Num (channel imgData width (int width - 1) (int height - 1) 1),
            Num (channel imgData width (int width - 1) (int height - 1) 2))"
  using sample_top_left [OF assms(1-5)] sample_bottom_right [OF assms(1-3,6,7)] by simp

theorem sampler_corners_exact_witness:
  "(1::nat) \<le> 2 \<and> (1::nat) \<le> 1 \<and>
   length [10, 20, 30, 255, 50, 60, 70, 255 :: 8 word] = 4 * 2 * 1 \<and>
   sampleEquirectangularBilinear [10, 20, 30, 255, 50, 60, 70, 255] (Num 0) (Num 0) 2 1 =
     (Num 10, Num 20, Num 30) \<and>
   sampleEquirectangularBilinear [10, 20, 30, 255, 50, 60, 70, 255] (Num 1) (Num 1) 2 1 =
     (Num 50, Num 60, Num 70)"
  using sampler_corners_exact [of 2 1 "[10, 20, 30, 255, 50, 60, 70, 255]" 0 0 1 1]
  by (simp add: channel_def)

section \<open>The projection: table, formulas, range, faces out of range\<close>

lemma faceUV_values:
  assumes "0 \<le> face" "face \<le> 5"
  shows "\<exists>x y z eqU eqV.
     spec_direction face (2 * u - 1) (2 * v - 1) = (x, y, z) \<and>
     faceUVToEquirectangular face u v = (Num eqU, Num eqV) \<and>
     eqU = (num_val (Math_atan2 z x) + pi) / (2 * pi) \<and>
     eqV = arccos (num_val y / sqrt ((num_val x)\<^sup>2 + (num_val y)\<^sup>2 + (num_val z)\<^sup>2)) / pi \<and>
     0 \<le> eqU \<and> eqU \<le> 1 \<and> 0 \<le> eqV \<and> eqV \<le> 1"
proof -
  obtain x y z where dir: "spec_direction face (2 * u - 1) (2 * v - 1) = (x, y, z)"
    by (metis prod_cases3)
  define d where "d = sqrt (num_val x * num_val x + num_val y * num_val y + num_val z * num_val z)"
  define th where "th = Math_atan2 z x"
  from spec_direction_props [OF dir]
  have nn: "\<not> is_NaN x" "\<not> is_NaN y" "\<not> is_NaN z"
    and one: "1 \<le> num_val x * num_val x + num_val y * num_val y + num_val z * num_val z"
    by simp_all
  have "sqrt 1 \<le> d" unfolding d_def using one by (rule real_sqrt_le_mono)
  then have dpos: "0 < d" by simp
  have yd: "\<bar>num_val y\<bar> \<le> d" unfolding d_def by (rule component_le_norm)
  have acos: "Math_acos (js_div_norm y d) = Num (arccos (num_val y / d))"
    using nn(2) dpos yd by (rule Math_acos_quot)
  have q: "- 1 \<le> num_val y / d" "num_val y / d \<le> 1"
    using dpos yd by (simp_all add: pos_le_divide_eq pos_divide_le_eq abs_le_iff)
  have th: "\<not> is_NaN th" "- pi \<le> num_val th" "num_val th \<le> pi"
    unfolding th_def using Math_atan2_range [OF nn(3) nn(1)] by simp_all
  have eq: "faceUVToEquirectangular face u v =
      (Num ((num_val th + pi) / (2 * pi)), Num (arccos (num_val y / d) / pi))"
    using faceUV_spec_direction [OF assms(1,2), of u v] dir acos th(1)
    by (simp add: d_def [symmetric] th_def [symmetric] js_add_pi)
  have u0: "0 \<le> (num_val th + pi) / (2 * pi)"
    using th(2) pi_gt_zero by simp
  have u1: "(num_val th + pi) / (2 * pi) \<le> 1"
    using th(3) pi_gt_zero by simp
  have v0: "0 \<le> arccos (num_val y / d) / pi"
    using arccos_lbound [OF q] pi_gt_zero by simp
  have v1: "arccos (num_val y / d) / pi \<le> 1"
    using arccos_ubound [OF q] pi_gt_zero by simp
  show ?thesis
    using dir eq u0 u1 v0 v1
    by (simp add: d_def th_def power2_eq_square)
qed

text \<open>
  Claim C3. For a face 0 to 5 and \<open>(u, v)\<close> in \<open>[0, 1)\<^sup>2\<close>, the mapping builds the
  direction \<open>(x, y, z)\<close> of the table from \<open>uc = 2u - 1\<close> and \<open>vc = 2v - 1\<close>, returns
  \<open>eqU = (atan2 (z, x) + \<pi>) / 2\<pi>\<close> and \<open>eqV = acos (y / sqrt (x\<^sup>2 + y\<^sup>2 + z\<^sup>2)) / \<pi>\<close>,
  both numbers (not NaN), and \<open>(eqU, eqV)\<close> lies in \<open>[0, 1] \<times> [0, 1]\<close>.
\<close>

theorem faceUV_table_and_range:
  assumes "0 \<le> face" "face \<le> 5" "0 \<le> u" "u < 1" "0 \<le> v" "v < 1"
  shows "\<exists>x y z eqU eqV.
     spec_direction face (2 * u - 1) (2 * v - 1) = (x, y, z) \<and>
     faceUVToEquirectangular face u v = (Num eqU, Num eqV) \<and>
     eqU = (num_val (Math_atan2 z x) + pi) / (2 * pi) \<and>
     eqV = arccos (num_val y / sqrt ((num_val x)\<^sup>2 + (num_val y)\<^sup>2 + (num_val z)\<^sup>2)) / pi \<and>
     0 \<le> eqU \<and> eqU \<le> 1 \<and> 0 \<le> eqV \<and> eqV \<le> 1"
  using assms(1,2) by (rule faceUV_values)

theorem faceUV_table_and_range_witness:
  "(0::int) \<le> 0 \<and> (0::int) \<le> 5 \<and> (0::real) \<le> 1 / 2 \<and> (1 / 2 :: real) < 1 \<and>
   faceUVToEquirectangular 0 (1 / 2) (1 / 2) = (Num (1 / 2), Num (1 / 2))"
proof -
  have "(0::int) \<le> 0" "(0::int) \<le> 5" "(0::real) \<le> 1 / 2" "(1 / 2 :: real) < 1"
    "(0::real) \<le> 1 / 2" "(1 / 2 :: real) < 1"
    by simp_all
  from faceUV_table_and_range [OF this]
  obtain x y z eqU eqV where
    d: "spec_direction 0 (2 * (1 / 2) - 1) (2 * (1 / 2) - 1) = (x, y, z)"
    and f: "faceUVToEquirectangular 0 (1 / 2) (1 / 2) = (Num eqU, Num eqV)"
    and e: "eqU = (num_val (Math_atan2 z x) + pi) / (2 * pi)"
      "eqV = arccos (num_val y / sqrt ((num_val x)\<^sup>2 + (num_val y)\<^sup>2 + (num_val z)\<^sup>2)) / pi"
    by blast
  from d have xyz: "x = Num 1" "y = NegZero" "z = NegZero"
    by (simp_all add: spec_direction_def js_neg_def)
  from e have "eqU = 1 / 2" "eqV = 1 / 2"
    unfolding xyz by simp_all
  with f show ?thesis by simp
qed

text \<open>
  Claim C4, as the code has it. The function has no check and raises nothing: for a
  face outside 0 to 5 the \<open>default\<close> branch sets the direction to \<open>(0, 0, 0)\<close>, and the
  inverse projection of that vector returns normally, with \<open>eqU = 0.5\<close> and
  \<open>eqV = NaN\<close> (from \<open>0 / 0\<close>).
\<close>

theorem faceUV_face_out_of_range:
  "face < 0 \<or> 5 < face \<Longrightarrow> faceUVToEquirectangular face u v = (Num (1 / 2), NaN)"
  by (auto simp: faceUVToEquirectangular_def js_div_norm_def)

theorem faceUV_face_out_of_range_witness:
  "((6::int) < 0 \<or> (5::int) < 6) \<and> faceUVToEquirectangular 6 0 0 = (Num (1 / 2), NaN)"
  using faceUV_face_out_of_range [of 6 0 0] by simp

text \<open>
  The claim as stated fails: face 7 is no error, the call returns a pair, the degenerate
  direction is not rejected.
\<close>

theorem faceUV_no_geometry_error_counterexample:
  "faceUVToEquirectangular 7 (1 / 4) (3 / 4) = (Num (1 / 2), NaN)"
  by (simp add: faceUVToEquirectangular_def js_div_norm_def)

section \<open>Client and server\<close>

text \<open>
  Claim C10. The projection and the sampler of the client converter return the same
  values as those of the server converter, for every face, every \<open>(u, v)\<close>, every
  buffer, width and height.
\<close>

theorem client_server_equivalent:
  "client_faceUVToEquirectangular face u v = faceUVToEquirectangular face u v \<and>
   client_sampleEquirectangularBilinear imgData a b width height =
     sampleEquirectangularBilinear imgData a b width height"
  by (simp add: client_faceUVToEquirectangular_def faceUVToEquirectangular_def
      client_sampleEquirectangularBilinear_def sampleEquirectangularBilinear_def)

section \<open>Loops that write a grid of pixels\<close>

lemma nth_put4:
  assumes "q * 4 + 3 < length d" "k < 4"
  shows "(d[q * 4 := a0, q * 4 + 1 := a1, q * 4 + 2 := a2, q * 4 + 3 := a3]) ! (p * 4 + k) =
         (if p = q then [a0, a1, a2, a3] ! k else d ! (p * 4 + k))"
proof (cases "p = q")
  case True
  from assms(2) have "k = 0 \<or> k = 1 \<or> k = 2 \<or> k = 3" by arith
  then show ?thesis using True assms(1) by (elim disjE) (simp_all add: nth_list_update)
next
  case False
  with assms(2) have "q * 4 \<noteq> p * 4 + k" "q * 4 + 1 \<noteq> p * 4 + k" "q * 4 + 2 \<noteq> p * 4 + k"
    "q * 4 + 3 \<noteq> p * 4 + k" by arith+
  with False show ?thesis by simp
qed

lemma row_loop:
  assumes "(b + n) * 4 \<le> length d0"
  shows "length (fold (\<lambda>x d. d[(b + x) * 4 := f0 x, (b + x) * 4 + 1 := f1 x,
            (b + x) * 4 + 2 := f2 x, (b + x) * 4 + 3 := f3 x]) [0..<n] d0) = length d0 \<and>
         (\<forall>p k. k < 4 \<longrightarrow>
            fold (\<lambda>x d. d[(b + x) * 4 := f0 x, (b + x) * 4 + 1 := f1 x,
              (b + x) * 4 + 2 := f2 x, (b + x) * 4 + 3 := f3 x]) [0..<n] d0 ! (p * 4 + k) =
            (if b \<le> p \<and> p < b + n then [f0 (p - b), f1 (p - b), f2 (p - b), f3 (p - b)] ! k
             else d0 ! (p * 4 + k)))"
  using assms
proof (induction n)
  case 0
  then show ?case by auto
next
  case (Suc n)
  let ?R = "fold (\<lambda>x d. d[(b + x) * 4 := f0 x, (b + x) * 4 + 1 := f1 x,
            (b + x) * 4 + 2 := f2 x, (b + x) * 4 + 3 := f3 x]) [0..<n] d0"
  from Suc.prems have "(b + n) * 4 \<le> length d0" by simp
  from Suc.IH [OF this] have len: "length ?R = length d0"
    and nth: "\<And>p k. k < 4 \<Longrightarrow> ?R ! (p * 4 + k) =
            (if b \<le> p \<and> p < b + n then [f0 (p - b), f1 (p - b), f2 (p - b), f3 (p - b)] ! k
             else d0 ! (p * 4 + k))"
    by blast+
  from Suc.prems len have inr: "(b + n) * 4 + 3 < length ?R" by simp
  have step: "fold (\<lambda>x d. d[(b + x) * 4 := f0 x, (b + x) * 4 + 1 := f1 x,
            (b + x) * 4 + 2 := f2 x, (b + x) * 4 + 3 := f3 x]) [0..<Suc n] d0 =
        ?R[(b + n) * 4 := f0 n, (b + n) * 4 + 1 := f1 n, (b + n) * 4 + 2 := f2 n, (b + n) * 4 + 3 := f3 n]"
    by simp
  show ?case
    unfolding step
  proof (intro conjI allI impI)
    show "length (?R[(b + n) * 4 := f0 n, (b + n) * 4 + 1 := f1 n, (b + n) * 4 + 2 := f2 n,
        (b + n) * 4 + 3 := f3 n]) = length d0"
      using len by simp
  next
    fix p k :: nat
    assume k: "k < 4"
    show "?R[(b + n) * 4 := f0 n, (b + n) * 4 + 1 := f1 n, (b + n) * 4 + 2 := f2 n,
        (b + n) * 4 + 3 := f3 n] ! (p * 4 + k) =
       (if b \<le> p \<and> p < b + Suc n then [f0 (p - b), f1 (p - b), f2 (p - b), f3 (p - b)] ! k
        else d0 ! (p * 4 + k))"
      unfolding nth_put4 [OF inr k] nth [OF k]
      by (cases "p = b + n") auto
  qed
qed

lemma div_mod_block:
  fixes S m n p :: nat
  assumes "n \<le> S"
  shows "(m * S \<le> p \<and> p < m * S + n) \<longleftrightarrow> (p div S = m \<and> p mod S < n)"
proof (cases "S = 0")
  case True
  with assms show ?thesis by simp
next
  case False
  then have S: "0 < S" by simp
  show ?thesis
  proof
    assume a: "m * S \<le> p \<and> p < m * S + n"
    then have "p < m * S + S" using assms by simp
    then have "p div S = m" using a S
      by (metis add.commute div_nat_eqI mult.commute mult_Suc)
    moreover have "p mod S = p - m * S"
      using \<open>p div S = m\<close> by (metis minus_mult_div_eq_mod mult.commute)
    moreover have "p - m * S < n" using a by linarith
    ultimately show "p div S = m \<and> p mod S < n" by simp
  next
    assume a: "p div S = m \<and> p mod S < n"
    have "p = m * S + p mod S" using a by (metis div_mult_mod_eq)
    then show "m * S \<le> p \<and> p < m * S + n" using a by linarith
  qed
qed

lemma grid_loop:
  assumes "n \<le> S" "m * S * 4 \<le> length d0"
  shows "length (fold (\<lambda>y d. fold (\<lambda>x d. d[(y * S + x) * 4 := f0 x y, (y * S + x) * 4 + 1 := f1 x y,
            (y * S + x) * 4 + 2 := f2 x y, (y * S + x) * 4 + 3 := f3 x y]) [0..<n] d) [0..<m] d0) = length d0 \<and>
         (\<forall>p k. k < 4 \<longrightarrow>
            fold (\<lambda>y d. fold (\<lambda>x d. d[(y * S + x) * 4 := f0 x y, (y * S + x) * 4 + 1 := f1 x y,
              (y * S + x) * 4 + 2 := f2 x y, (y * S + x) * 4 + 3 := f3 x y]) [0..<n] d) [0..<m] d0 ! (p * 4 + k) =
            (if p div S < m \<and> p mod S < n
             then [f0 (p mod S) (p div S), f1 (p mod S) (p div S), f2 (p mod S) (p div S),
                   f3 (p mod S) (p div S)] ! k
             else d0 ! (p * 4 + k)))"
  using assms(2)
proof (induction m)
  case 0
  then show ?case by simp
next
  case (Suc m)
  let ?row = "\<lambda>y d. fold (\<lambda>x d. d[(y * S + x) * 4 := f0 x y, (y * S + x) * 4 + 1 := f1 x y,
            (y * S + x) * 4 + 2 := f2 x y, (y * S + x) * 4 + 3 := f3 x y]) [0..<n] d"
  let ?O = "fold ?row [0..<m] d0"
  from Suc.prems have "m * S * 4 \<le> length d0" by simp
  from Suc.IH [OF this] have len: "length ?O = length d0"
    and nth: "\<And>p k. k < 4 \<Longrightarrow> ?O ! (p * 4 + k) =
            (if p div S < m \<and> p mod S < n
             then [f0 (p mod S) (p div S), f1 (p mod S) (p div S), f2 (p mod S) (p div S),
                   f3 (p mod S) (p div S)] ! k
             else d0 ! (p * 4 + k))"
    by blast+
  have "(m * S + n) * 4 \<le> (m * S + S) * 4" using assms(1) by simp
  also have "\<dots> \<le> length d0" using Suc.prems by (simp add: algebra_simps)
  finally have fits: "(m * S + n) * 4 \<le> length ?O" using len by simp
  note row = row_loop [OF fits, of "\<lambda>x. f0 x m" "\<lambda>x. f1 x m" "\<lambda>x. f2 x m" "\<lambda>x. f3 x m"]
  have step: "fold ?row [0..<Suc m] d0 = ?row m ?O" by simp
  show ?case
    unfolding step
  proof (intro conjI allI impI)
    show "length (?row m ?O) = length d0" using row len by simp
  next
    fix p k :: nat
    assume k: "k < 4"
    have blk: "(m * S \<le> p \<and> p < m * S + n) \<longleftrightarrow> (p div S = m \<and> p mod S < n)"
      using assms(1) by (rule div_mod_block)
    have sub: "p - m * S = p mod S" if "p div S = m"
      using that by (metis minus_mult_div_eq_mod mult.commute)
    have "?row m ?O ! (p * 4 + k) =
        (if m * S \<le> p \<and> p < m * S + n
         then [f0 (p - m * S) m, f1 (p - m * S) m, f2 (p - m * S) m, f3 (p - m * S) m] ! k
         else ?O ! (p * 4 + k))"
      using row k by blast
    also have "\<dots> = (if p div S < Suc m \<and> p mod S < n
             then [f0 (p mod S) (p div S), f1 (p mod S) (p div S), f2 (p mod S) (p div S),
                   f3 (p mod S) (p div S)] ! k
             else d0 ! (p * 4 + k))"
      unfolding blk nth [OF k] using sub by (auto simp: less_Suc_eq)
    finally show "?row m ?O ! (p * 4 + k) =
         (if p div S < Suc m \<and> p mod S < n
          then [f0 (p mod S) (p div S), f1 (p mod S) (p div S), f2 (p mod S) (p div S),
                f3 (p mod S) (p div S)] ! k
          else d0 ! (p * 4 + k))" .
  qed
qed

lemma grid_loop_nth:
  assumes "n \<le> S" "m * S * 4 \<le> length d0" "x < n" "y < m" "k < 4"
  shows "fold (\<lambda>y d. fold (\<lambda>x d. d[(y * S + x) * 4 := f0 x y, (y * S + x) * 4 + 1 := f1 x y,
              (y * S + x) * 4 + 2 := f2 x y, (y * S + x) * 4 + 3 := f3 x y]) [0..<n] d) [0..<m] d0 !
           ((y * S + x) * 4 + k) = [f0 x y, f1 x y, f2 x y, f3 x y] ! k"
proof -
  from assms(1,3) have xS: "x < S" by simp
  then have dm: "(y * S + x) div S = y" "(y * S + x) mod S = x" by simp_all
  from grid_loop [OF assms(1,2), of f0 f1 f2 f3]
  have "\<And>p k. k < 4 \<Longrightarrow>
            fold (\<lambda>y d. fold (\<lambda>x d. d[(y * S + x) * 4 := f0 x y, (y * S + x) * 4 + 1 := f1 x y,
              (y * S + x) * 4 + 2 := f2 x y, (y * S + x) * 4 + 3 := f3 x y]) [0..<n] d) [0..<m] d0 ! (p * 4 + k) =
            (if p div S < m \<and> p mod S < n
             then [f0 (p mod S) (p div S), f1 (p mod S) (p div S), f2 (p mod S) (p div S),
                   f3 (p mod S) (p div S)] ! k
             else d0 ! (p * 4 + k))"
    by blast
  from this [OF assms(5), of "y * S + x"] show ?thesis
    unfolding dm using assms(3,4) by (simp only: simp_thms if_True)
qed

lemma grid_loop_length:
  assumes "n \<le> S" "m * S * 4 \<le> length d0"
  shows "length (fold (\<lambda>y d. fold (\<lambda>x d. d[(y * S + x) * 4 := f0 x y, (y * S + x) * 4 + 1 := f1 x y,
            (y * S + x) * 4 + 2 := f2 x y, (y * S + x) * 4 + 3 := f3 x y]) [0..<n] d) [0..<m] d0) = length d0"
  using grid_loop [OF assms, of f0 f1 f2 f3] by simp

section \<open>The rasterized face, pixel by pixel\<close>

lemma generateCubeFace_loops:
  assumes "0 < size'"
  shows "generateCubeFace img face size' =
     Inr (fold (\<lambda>y d. fold (\<lambda>x d. d[(y * size' + x) * 4 := toUint8Clamp (fst (facePixel img face size' x y)),
            (y * size' + x) * 4 + 1 := toUint8Clamp (fst (snd (facePixel img face size' x y))),
            (y * size' + x) * 4 + 2 := toUint8Clamp (snd (snd (facePixel img face size' x y))),
            (y * size' + x) * 4 + 3 := 255]) [0..<size'] d) [0..<size'] (replicate (size' * size' * 4) 0))"
  using assms unfolding generateCubeFace_def facePixel_def Let_def split_def
  by simp

lemma generateCubeFace_nth:
  assumes "0 < size'" "x < size'" "y < size'" "k < 4"
  shows "\<exists>faceData. generateCubeFace img face size' = Inr faceData \<and>
     length faceData = size' * size' * 4 \<and>
     faceData ! ((y * size' + x) * 4 + k) =
       [toUint8Clamp (fst (facePixel img face size' x y)),
        toUint8Clamp (fst (snd (facePixel img face size' x y))),
        toUint8Clamp (snd (snd (facePixel img face size' x y))), 255] ! k"
proof -
  have fits: "size' * size' * 4 \<le> length (replicate (size' * size' * 4) (0 :: 8 word))" by simp
  show ?thesis
    unfolding generateCubeFace_loops [OF assms(1)]
    using grid_loop_nth [OF order_refl fits assms(2,3,4)] grid_loop_length [OF order_refl fits]
    by simp
qed

lemma lerp_bounds:
  fixes a b t lo hi :: real
  assumes "0 \<le> t" "t \<le> 1" "lo \<le> a" "a \<le> hi" "lo \<le> b" "b \<le> hi"
  shows "lo \<le> a * (1 - t) + b * t" "a * (1 - t) + b * t \<le> hi"
proof -
  have t1: "0 \<le> 1 - t" using assms(2) by simp
  have "lo * (1 - t) + lo * t \<le> a * (1 - t) + b * t"
    by (intro add_mono mult_right_mono assms t1)
  then show "lo \<le> a * (1 - t) + b * t" by (simp add: algebra_simps)
  have "a * (1 - t) + b * t \<le> hi * (1 - t) + hi * t"
    by (intro add_mono mult_right_mono assms t1)
  then show "a * (1 - t) + b * t \<le> hi" by (simp add: algebra_simps)
qed

lemma bilinear_bounds:
  assumes "0 \<le> fx" "fx \<le> 1" "0 \<le> fy" "fy \<le> 1"
    and "lo \<le> c1" "c1 \<le> hi" "lo \<le> c2" "c2 \<le> hi" "lo \<le> c3" "c3 \<le> hi" "lo \<le> c4" "c4 \<le> hi"
  shows "lo \<le> bilinear fx fy c1 c2 c3 c4 \<and> bilinear fx fy c1 c2 c3 c4 \<le> hi"
  unfolding bilinear_def
  using lerp_bounds [OF assms(3,4) lerp_bounds [OF assms(1,2,5-8)] lerp_bounds [OF assms(1,2,9-12)]]
  by simp

lemma channel_bounds: "0 \<le> channel d w px py c" "channel d w px py c \<le> 255"
proof -
  show "0 \<le> channel d w px py c" unfolding channel_def by (rule of_nat_0_le_iff)
  have "unat (d ! nat ((py * int w + px) * 4 + c)) < 2 ^ 8"
    using unsigned_less [of "d ! nat ((py * int w + px) * 4 + c)", where 'a = nat] by simp
  then have "unat (d ! nat ((py * int w + px) * 4 + c)) \<le> 255" by simp
  then have "real (unat (d ! nat ((py * int w + px) * 4 + c))) \<le> real 255"
    by (rule of_nat_mono)
  then show "channel d w px py c \<le> 255" unfolding channel_def by simp
qed

lemma Math_round_byte:
  assumes "0 \<le> r" "r \<le> 255"
  shows "\<exists>n. n \<le> 255 \<and> Math_round (Num r) = Num (real n)"
proof -
  have lo: "0 \<le> \<lfloor>r + 1 / 2\<rfloor>" using assms(1) by simp
  have "r + 1 / 2 < 256" using assms(2) by simp
  then have hi: "\<lfloor>r + 1 / 2\<rfloor> < 256" by (simp add: floor_less_iff)
  have "Math_round (Num r) = Num (real (nat \<lfloor>r + 1 / 2\<rfloor>))"
    using assms(1) lo by simp
  moreover have "nat \<lfloor>r + 1 / 2\<rfloor> \<le> 255" using hi by linarith
  ultimately show ?thesis by blast
qed

lemma frac_bounds: "0 \<le> x - of_int \<lfloor>x\<rfloor>" "x - of_int \<lfloor>x :: real\<rfloor> \<le> 1"
  by linarith+

lemma sample_byte_valued:
  assumes "1 \<le> width" "1 \<le> height" "length d = 4 * width * height"
    and "\<not> is_NaN u0" "\<not> is_NaN v0"
  shows "\<exists>r g b. r \<le> 255 \<and> g \<le> 255 \<and> b \<le> 255 \<and>
     sampleEquirectangularBilinear d u0 v0 width height = (Num (real r), Num (real g), Num (real b))"
proof -
  obtain u where u: "clamp01 u0 = Num u" "0 \<le> u" "u \<le> 1"
    using clamp01_Num [OF assms(4)] by blast
  obtain v where v: "clamp01 v0 = Num v" "0 \<le> v" "v \<le> 1"
    using clamp01_Num [OF assms(5)] by blast
  note s = sample_in_bounds(1) [OF assms(1-3) u(1) v(1) u(2,3) v(2,3) refl refl refl refl refl refl]
  have bb: "0 \<le> bilinear (u * (real width - 1) - of_int \<lfloor>u * (real width - 1)\<rfloor>)
        (v * (real height - 1) - of_int \<lfloor>v * (real height - 1)\<rfloor>) (channel d width a1 b1 c)
        (channel d width a2 b2 c) (channel d width a3 b3 c) (channel d width a4 b4 c) \<and>
      bilinear (u * (real width - 1) - of_int \<lfloor>u * (real width - 1)\<rfloor>)
        (v * (real height - 1) - of_int \<lfloor>v * (real height - 1)\<rfloor>) (channel d width a1 b1 c)
        (channel d width a2 b2 c) (channel d width a3 b3 c) (channel d width a4 b4 c) \<le> 255"
    for a1 b1 a2 b2 a3 b3 a4 b4 c
    by (intro bilinear_bounds frac_bounds channel_bounds)
  show ?thesis
    unfolding s
    using Math_round_byte [OF bb [THEN conjunct1] bb [THEN conjunct2]]
    by metis
qed

lemma round_half_even_int: "round_half_even (of_int k) = k"
  by (simp add: round_half_even_def)

lemma unat_toUint8Clamp_byte:
  assumes "n \<le> 255"
  shows "unat (toUint8Clamp (Num (real n))) = n"
proof -
  have rhe: "round_half_even (real n) = int n"
    using round_half_even_int [of "int n"] by simp
  have w: "unat (word_of_nat n :: 8 word) = n"
    using assms by (simp add: unat_of_nat)
  show ?thesis
  proof (cases "n = 0 \<or> n = 255")
    case True
    then show ?thesis by auto
  next
    case False
    with assms have "0 < n" "n < 255" by simp_all
    then have "toUint8Clamp (Num (real n)) = word_of_nat n"
      by (simp add: rhe)
    then show ?thesis using w by simp
  qed
qed

section \<open>The face rasterizer\<close>

lemma faceUV_not_NaN:
  assumes "0 \<le> face" "face \<le> 5"
  shows "\<exists>eqU eqV. faceUVToEquirectangular face u v = (Num eqU, Num eqV)"
  using faceUV_values [OF assms, of u v] by blast

lemma facePixel_byte_valued:
  assumes "0 \<le> face" "face \<le> 5" "valid_image img"
  shows "\<exists>r g b. r \<le> 255 \<and> g \<le> 255 \<and> b \<le> 255 \<and>
     facePixel img face size' x y = (Num (real r), Num (real g), Num (real b))"
proof -
  obtain eqU eqV where f: "faceUVToEquirectangular face (real x / real size') (real y / real size') = (Num eqU, Num eqV)"
    using faceUV_not_NaN [OF assms(1,2)] by blast
  from assms(3) have v: "1 \<le> img_width img" "1 \<le> img_height img"
    "length (img_data img) = 4 * img_width img * img_height img"
    by (simp_all add: valid_image_def)
  show ?thesis
    unfolding facePixel_def f using sample_byte_valued [OF v, of "Num eqU" "Num eqV"] by simp
qed

lemma clamp01_unit: "0 \<le> t \<Longrightarrow> t \<le> 1 \<Longrightarrow> clamp01 (Num t) = Num t"
  by simp

lemma sample_strip9:
  assumes "0 \<le> t" "t \<le> 1" "0 \<le> eqV" "eqV \<le> 1" "t * 8 = real n" "n \<le> 8"
  shows "sampleEquirectangularBilinear (img_data strip9) (Num t) (Num eqV) 9 1 =
           (Num (channel (img_data strip9) 9 (int n) 0 0), Num (channel (img_data strip9) 9 (int n) 0 1),
            Num (channel (img_data strip9) 9 (int n) 0 2))"
proof -
  have len: "length (img_data strip9) = 4 * 9 * 1" by (simp add: strip9_def)
  have x: "t * (real 9 - 1) = real n" using assms(5) by simp
  have fl: "\<lfloor>real n\<rfloor> = int n" by simp
  show ?thesis
    by (subst sample_in_bounds(1) [OF _ _ len clamp01_unit [OF assms(1,2)] clamp01_unit [OF assms(3,4)]
          assms(1-4) refl refl refl refl refl refl])
       (simp_all add: assms(5,6) fl bilinear_00 Math_round_channel del: Math_round.simps)
qed

lemma faceUV_corner: "\<exists>eqV. 0 \<le> eqV \<and> eqV \<le> 1 \<and> faceUVToEquirectangular 0 0 0 = (Num (5 / 8), Num eqV)"
proof -
  obtain x y z eqU eqV where
    d: "spec_direction 0 (2 * 0 - 1) (2 * 0 - 1) = (x, y, z)"
    and f: "faceUVToEquirectangular 0 0 0 = (Num eqU, Num eqV)"
    and e: "eqU = (num_val (Math_atan2 z x) + pi) / (2 * pi)" "0 \<le> eqV" "eqV \<le> 1"
    using faceUV_values [of 0 0 0] by auto
  from d have xyz: "x = Num 1" "z = Num 1"
    by (auto simp: spec_direction_def js_neg_def)
  have "(pi / 4 + pi) / (2 * pi) = 5 / 8"
    by (simp add: field_simps)
  with e(1) have "eqU = 5 / 8"
    unfolding xyz by (simp add: arctan_one)
  with f e(2,3) show ?thesis by blast
qed

lemma facePixel_strip9: "facePixel strip9 0 1 0 0 = (Num 50, Num 0, Num 0)"
proof -
  obtain eqV where v: "0 \<le> eqV" "eqV \<le> 1"
    and f: "faceUVToEquirectangular 0 0 0 = (Num (5 / 8), Num eqV)"
    using faceUV_corner by blast
  have "sampleEquirectangularBilinear (img_data strip9) (Num (5 / 8)) (Num eqV) 9 1 =
           (Num (channel (img_data strip9) 9 (int 5) 0 0), Num (channel (img_data strip9) 9 (int 5) 0 1),
            Num (channel (img_data strip9) 9 (int 5) 0 2))"
    by (rule sample_strip9 [OF _ _ v]) simp_all
  then show ?thesis
    by (simp add: facePixel_def f strip9_def channel_def)
qed

lemma spec_facePixel_strip9: "spec_facePixel strip9 0 1 0 0 = (Num 40, Num 0, Num 0)"
proof -
  have f: "faceUVToEquirectangular 0 (1 / 2) (1 / 2) = (Num (1 / 2), Num (1 / 2))"
    by (simp add: faceUVToEquirectangular_def js_div_norm_def js_neg_def)
  have "sampleEquirectangularBilinear (img_data strip9) (Num (1 / 2)) (Num (1 / 2)) 9 1 =
           (Num (channel (img_data strip9) 9 (int 4) 0 0), Num (channel (img_data strip9) 9 (int 4) 0 1),
            Num (channel (img_data strip9) 9 (int 4) 0 2))"
    by (rule sample_strip9) simp_all
  then show ?thesis
    by (simp add: spec_facePixel_def f strip9_def channel_def)
qed

lemma valid_strip9: "valid_image strip9"
  by (simp add: valid_image_def strip9_def)

text \<open>
  Claim C2, as the code has it. For a face 0 to 5, a face size \<open>size > 0\<close>, a valid
  source image and a pixel \<open>(x, y)\<close> of the face: the rasterizer maps the coordinates
  \<open>u = x / size\<close> and \<open>v = y / size\<close> (the corner of the pixel, not its centre) through
  the projection and the bilinear sampler over the whole source image, and writes the
  three sampled values, which are bytes, and the alpha value 255 at the four bytes of
  the pixel.
\<close>

theorem generateCubeFace_pixel:
  assumes "0 \<le> face" "face \<le> 5" "0 < size'" "x < size'" "y < size'" "valid_image img"
  shows "\<exists>faceData r g b.
     generateCubeFace img face size' = Inr faceData \<and> length faceData = size' * size' * 4 \<and>
     (let (u, v) = faceUVToEquirectangular face (real x / real size') (real y / real size')
      in sampleEquirectangularBilinear (img_data img) u v (img_width img) (img_height img)) =
       (Num (real r), Num (real g), Num (real b)) \<and>
     unat (faceData ! ((y * size' + x) * 4)) = r \<and>
     unat (faceData ! ((y * size' + x) * 4 + 1)) = g \<and>
     unat (faceData ! ((y * size' + x) * 4 + 2)) = b \<and>
     faceData ! ((y * size' + x) * 4 + 3) = 255"
proof -
  obtain r g b where rgb: "r \<le> 255" "g \<le> 255" "b \<le> 255"
    and px: "facePixel img face size' x y = (Num (real r), Num (real g), Num (real b))"
    using facePixel_byte_valued [OF assms(1,2,6)] by blast
  obtain faceData where fd: "generateCubeFace img face size' = Inr faceData"
    "length faceData = size' * size' * 4"
    using generateCubeFace_nth [OF assms(3,4,5), of 0 img face] by auto
  have nth: "faceData ! ((y * size' + x) * 4 + k) =
       [toUint8Clamp (Num (real r)), toUint8Clamp (Num (real g)), toUint8Clamp (Num (real b)), 255] ! k"
    if "k < 4" for k
    using generateCubeFace_nth [OF assms(3,4,5) that, of img face] fd(1) px by auto
  have "unat (faceData ! ((y * size' + x) * 4)) = r"
    using nth [of 0] rgb(1) by (simp add: unat_toUint8Clamp_byte del: toUint8Clamp.simps)
  moreover have "unat (faceData ! ((y * size' + x) * 4 + 1)) = g"
    using nth [of 1] rgb(2) by (simp add: unat_toUint8Clamp_byte del: toUint8Clamp.simps)
  moreover have "unat (faceData ! ((y * size' + x) * 4 + 2)) = b"
    using nth [of 2] rgb(3) by (simp add: unat_toUint8Clamp_byte del: toUint8Clamp.simps)
  moreover have "faceData ! ((y * size' + x) * 4 + 3) = 255"
    using nth [of 3] by simp
  moreover have "(let (u, v) = faceUVToEquirectangular face (real x / real size') (real y / real size')
      in sampleEquirectangularBilinear (img_data img) u v (img_width img) (img_height img)) =
       (Num (real r), Num (real g), Num (real b))"
    using px by (simp add: facePixel_def)
  ultimately show ?thesis using fd by blast
qed

theorem generateCubeFace_pixel_witness:
  "(0::int) \<le> 0 \<and> (0::int) \<le> 5 \<and> (0::nat) < 1 \<and> valid_image strip9 \<and>
   (\<exists>faceData. generateCubeFace strip9 0 1 = Inr faceData \<and> length faceData = 1 * 1 * 4 \<and>
      unat (faceData ! ((0 * 1 + 0) * 4)) = 50 \<and> unat (faceData ! ((0 * 1 + 0) * 4 + 1)) = 0 \<and>
      unat (faceData ! ((0 * 1 + 0) * 4 + 2)) = 0 \<and> faceData ! ((0 * 1 + 0) * 4 + 3) = 255)"
proof -
  have h: "(0::int) \<le> 0" "(0::int) \<le> 5" "(0::nat) < 1" "(0::nat) < 1" "(0::nat) < 1" by simp_all
  from generateCubeFace_pixel [OF h valid_strip9]
  obtain faceData r g b where
    fd: "generateCubeFace strip9 0 1 = Inr faceData" "length faceData = 1 * 1 * 4"
    and px: "(let (u, v) = faceUVToEquirectangular 0 (real 0 / real 1) (real 0 / real 1)
      in sampleEquirectangularBilinear (img_data strip9) u v (img_width strip9) (img_height strip9)) =
       (Num (real r), Num (real g), Num (real b))"
    and bs: "unat (faceData ! ((0 * 1 + 0) * 4)) = r" "unat (faceData ! ((0 * 1 + 0) * 4 + 1)) = g"
      "unat (faceData ! ((0 * 1 + 0) * 4 + 2)) = b" "faceData ! ((0 * 1 + 0) * 4 + 3) = 255"
    by blast
  from px have "(Num (real r), Num (real g), Num (real b)) = (Num 50, Num 0, Num 0)"
    using facePixel_strip9 by (simp add: facePixel_def)
  then have "r = 50" "g = 0" "b = 0" by simp_all
  with fd bs have "\<exists>faceData. generateCubeFace strip9 0 1 = Inr faceData \<and> length faceData = 1 * 1 * 4 \<and>
      unat (faceData ! ((0 * 1 + 0) * 4)) = 50 \<and> unat (faceData ! ((0 * 1 + 0) * 4 + 1)) = 0 \<and>
      unat (faceData ! ((0 * 1 + 0) * 4 + 2)) = 0 \<and> faceData ! ((0 * 1 + 0) * 4 + 3) = 255"
    by blast
  with valid_strip9 show ?thesis by simp
qed

text \<open>
  The claim as stated, with \<open>u = (x + 0.5) / size\<close> and \<open>v = (y + 0.5) / size\<close>,
  fails: on the strip of nine pixels the only pixel of face 0 at size 1 is written
  from source pixel 5 (red 50), where the coordinates of the pixel centre sample
  source pixel 4 (red 40).
\<close>

theorem generateCubeFace_pixel_centre_counterexample:
  "generateCubeFace strip9 0 1 = Inr [50, 0, 0, 255] \<and>
   spec_facePixel strip9 0 1 0 0 = (Num 40, Num 0, Num 0)"
proof -
  have fp: "facePixel strip9 0 (Suc 0) 0 0 = (Num 50, Num 0, Num 0)"
    using facePixel_strip9 by simp
  have "generateCubeFace strip9 0 1 = Inr [50, 0, 0, 255]"
    unfolding generateCubeFace_loops [of 1, OF zero_less_one]
    by (simp add: fp round_half_even_def eval_nat_numeral)
  then show ?thesis using spec_facePixel_strip9 by simp
qed

section \<open>The tile slicer\<close>

lemma length_fold_update:
  assumes "\<And>x d. length (f x d) = length d"
  shows "length (fold f xs d0) = length d0"
  using assms by (induction xs arbitrary: d0) simp_all

lemma tps_less_iff:
  assumes "0 < cfg_tileSize config"
  shows "c < tilesPerSide config \<longleftrightarrow> c * cfg_tileSize config < cfg_size config"
proof -
  have ts: "0 < real (cfg_tileSize config)" using assms by simp
  have "c < tilesPerSide config \<longleftrightarrow> int c < \<lceil>real (cfg_size config) / real (cfg_tileSize config)\<rceil>"
    unfolding tilesPerSide_def by (rule zless_nat_eq_int_zless)
  also have "\<dots> \<longleftrightarrow> real c < real (cfg_size config) / real (cfg_tileSize config)"
    by (simp add: less_ceiling_iff)
  also have "\<dots> \<longleftrightarrow> real c * real (cfg_tileSize config) < real (cfg_size config)"
    using ts by (simp add: pos_less_divide_eq)
  also have "\<dots> \<longleftrightarrow> c * cfg_tileSize config < cfg_size config"
    by (metis of_nat_less_iff of_nat_mult)
  finally show ?thesis .
qed

lemma tps_pos:
  assumes "0 < cfg_tileSize config" "0 < cfg_size config"
  shows "0 < tilesPerSide config"
  using tps_less_iff [OF assms(1), of 0] assms(2) by simp

lemma extent_inner:
  assumes "0 < cfg_tileSize config" "Suc c < tilesPerSide config"
  shows "min (cfg_tileSize config) (cfg_size config - c * cfg_tileSize config) = cfg_tileSize config"
proof -
  from assms have "Suc c * cfg_tileSize config < cfg_size config"
    by (simp only: tps_less_iff)
  then show ?thesis by simp
qed

lemma extent_last:
  assumes "0 < cfg_tileSize config" "0 < cfg_size config"
  shows "min (cfg_tileSize config) (cfg_size config - (tilesPerSide config - 1) * cfg_tileSize config) =
     (if cfg_size config mod cfg_tileSize config \<noteq> 0 then cfg_size config mod cfg_tileSize config
      else cfg_tileSize config)"
proof -
  define ts where "ts = cfg_tileSize config"
  define S where "S = cfg_size config"
  define l where "l = tilesPerSide config - 1"
  have T: "tilesPerSide config = Suc l"
    using tps_pos [OF assms] by (simp add: l_def)
  have "l < tilesPerSide config" using T by simp
  then have lo: "l * ts < S" using assms(1) by (simp add: tps_less_iff ts_def S_def)
  have "\<not> Suc l < tilesPerSide config" using T by simp
  then have hi: "S \<le> l * ts + ts" using assms(1) by (simp add: tps_less_iff ts_def S_def)
  define r where "r = S - l * ts"
  have r: "0 < r" "r \<le> ts" "S = l * ts + r" using lo hi by (simp_all add: r_def)
  have "min ts r = (if S mod ts \<noteq> 0 then S mod ts else ts)"
  proof (cases "r = ts")
    case True
    then show ?thesis using r(3) by simp
  next
    case False
    with r have "r < ts" by simp
    then have "S mod ts = r" using r(3) by simp
    then show ?thesis using r(1) \<open>r < ts\<close> by simp
  qed
  then show ?thesis by (simp add: r_def ts_def S_def l_def)
qed

lemma cover_axis:
  assumes "0 < cfg_tileSize config" "p < cfg_size config"
  shows "\<exists>!c. c < tilesPerSide config \<and> sourceX config c \<le> p \<and>
           p < sourceX config c + sourceWidth config (cfg_size config) c"
proof -
  define ts where "ts = cfg_tileSize config"
  have ts: "0 < ts" using assms(1) by (simp add: ts_def)
  have blk: "(c * ts \<le> p \<and> p < c * ts + ts) \<longleftrightarrow> p div ts = c" for c
    using div_mod_block [of ts ts c p] ts by simp
  have reg: "(c < tilesPerSide config \<and> sourceX config c \<le> p \<and>
           p < sourceX config c + sourceWidth config (cfg_size config) c) \<longleftrightarrow> p div ts = c" for c
  proof
    assume a: "c < tilesPerSide config \<and> sourceX config c \<le> p \<and>
           p < sourceX config c + sourceWidth config (cfg_size config) c"
    then have "c * ts \<le> p \<and> p < c * ts + ts"
      by (auto simp: sourceX_def sourceWidth_def ts_def)
    then show "p div ts = c" by (simp only: blk)
  next
    assume "p div ts = c"
    then have b: "c * ts \<le> p" "p < c * ts + ts" using blk [of c] by simp_all
    then have "c * ts < cfg_size config" using assms(2) by simp
    then have "c < tilesPerSide config" using assms(1) by (simp add: tps_less_iff ts_def)
    moreover have "p < c * ts + min ts (cfg_size config - c * ts)"
      using b assms(2) by simp
    ultimately show "c < tilesPerSide config \<and> sourceX config c \<le> p \<and>
           p < sourceX config c + sourceWidth config (cfg_size config) c"
      using b(1) by (simp add: sourceX_def sourceWidth_def ts_def)
  qed
  show ?thesis unfolding reg by simp
qed

lemma guarded_grid:
  assumes "\<And>x y. x < n \<Longrightarrow> y < m \<Longrightarrow> g x y"
  shows "fold (\<lambda>y d. fold (\<lambda>x d. if g x y then U x y d else d) [0..<n] d) [0..<m] d0 =
         fold (\<lambda>y d. fold (\<lambda>x d. U x y d) [0..<n] d) [0..<m] d0"
proof (rule fold_cong [OF refl refl])
  fix y assume "y \<in> set [0..<m]"
  then have y: "y < m" by simp
  show "(\<lambda>d. fold (\<lambda>x d. if g x y then U x y d else d) [0..<n] d) = (\<lambda>d. fold (\<lambda>x d. U x y d) [0..<n] d)"
  proof
    fix d
    show "fold (\<lambda>x d. if g x y then U x y d else d) [0..<n] d = fold (\<lambda>x d. U x y d) [0..<n] d"
      by (rule fold_cong [OF refl refl]) (use assms y in auto)
  qed
qed

lemma face_index_in_range:
  fixes px py k S :: nat
  assumes "px < S" "py < S" "k < 4"
  shows "(py * S + px) * 4 + k < S * S * 4"
proof -
  have "Suc py * S \<le> S * S" using assms(2) by (metis Suc_leI mult_le_mono1)
  then have "py * S + px < S * S" using assms(1) by simp
  then show ?thesis using assms(3) by simp
qed

lemma fill_length:
  "length (fold (\<lambda>j tileData. tileData[4 * j := a, 4 * j + 1 := b, 4 * j + 2 := c, 4 * j + 3 := e]) js d0) =
     length d0"
  by (rule length_fold_update) simp

lemma readStore_list4:
  assumes "i + 3 < length d" "k < 4"
  shows "[readStore d i, readStore d (i + 1), readStore d (i + 2), readStore d (i + 3)] ! k = d ! (i + k)"
proof -
  from assms(2) have "k = 0 \<or> k = 1 \<or> k = 2 \<or> k = 3" by arith
  then show ?thesis using assms(1) by (elim disjE) (simp_all add: readStore_def)
qed

lemma source_pixel_in_face:
  assumes "tx < sourceWidth config faceSize tileX" "ty < sourceHeight config faceSize tileY"
  shows "sourceX config tileX + tx < faceSize" "sourceY config tileY + ty < faceSize"
    "tx < cfg_tileSize config" "ty < cfg_tileSize config"
  using assms by (auto simp: sourceWidth_def sourceHeight_def)

lemma createTile_tileData_copy:
  assumes len: "length faceImageData = faceSize * faceSize * 4"
    and tx: "tx < sourceWidth config faceSize tileX" and ty: "ty < sourceHeight config faceSize tileY"
    and k: "k < 4"
  shows "createTile_tileData faceImageData tileX tileY config faceSize !
           ((ty * cfg_tileSize config + tx) * 4 + k) =
         faceImageData ! (((sourceY config tileY + ty) * faceSize + (sourceX config tileX + tx)) * 4 + k)"
proof -
  define ts where "ts = cfg_tileSize config"
  define sX where "sX = sourceX config tileX"
  define sY where "sY = sourceY config tileY"
  define sw where "sw = sourceWidth config faceSize tileX"
  define sh where "sh = sourceHeight config faceSize tileY"
  define d1 :: "8 word list" where "d1 = fold (\<lambda>j tileData. tileData[4 * j := 0, 4 * j + 1 := 0, 4 * j + 2 := 0, 4 * j + 3 := 255])
            [0..<(length (replicate (ts * ts * 4) (0 :: 8 word)) + 3) div 4] (replicate (ts * ts * 4) 0)"
  have d1: "length d1 = ts * ts * 4" unfolding d1_def fill_length by simp
  have guard: "((sY + y) * faceSize + (sX + x)) * 4 + 3 < length faceImageData"
    if "x < sw" "y < sh" for x y
    unfolding len
    using source_pixel_in_face(1,2) [of x config faceSize tileX y tileY] that
    by (intro face_index_in_range) (simp_all add: sX_def sY_def sw_def sh_def)
  have swts: "sw \<le> ts" "sh \<le> ts" by (simp_all add: sw_def sh_def ts_def sourceWidth_def sourceHeight_def)
  then have fits: "sh * ts * 4 \<le> length d1" unfolding d1 by simp
  have "createTile_tileData faceImageData tileX tileY config faceSize =
      fold (\<lambda>y d. fold (\<lambda>x d.
        if ((sY + y) * faceSize + (sX + x)) * 4 + 3 < length faceImageData
        then d[(y * ts + x) * 4 := readStore faceImageData (((sY + y) * faceSize + (sX + x)) * 4),
               (y * ts + x) * 4 + 1 := readStore faceImageData (((sY + y) * faceSize + (sX + x)) * 4 + 1),
               (y * ts + x) * 4 + 2 := readStore faceImageData (((sY + y) * faceSize + (sX + x)) * 4 + 2),
               (y * ts + x) * 4 + 3 := readStore faceImageData (((sY + y) * faceSize + (sX + x)) * 4 + 3)]
        else d) [0..<sw] d) [0..<sh] d1"
    unfolding createTile_tileData_def Let_def ts_def sX_def sY_def sw_def sh_def d1_def ..
  also have "\<dots> = fold (\<lambda>y d. fold (\<lambda>x d.
        d[(y * ts + x) * 4 := readStore faceImageData (((sY + y) * faceSize + (sX + x)) * 4),
               (y * ts + x) * 4 + 1 := readStore faceImageData (((sY + y) * faceSize + (sX + x)) * 4 + 1),
               (y * ts + x) * 4 + 2 := readStore faceImageData (((sY + y) * faceSize + (sX + x)) * 4 + 2),
               (y * ts + x) * 4 + 3 := readStore faceImageData (((sY + y) * faceSize + (sX + x)) * 4 + 3)])
        [0..<sw] d) [0..<sh] d1"
    by (rule guarded_grid) (rule guard)
  finally have eq: "createTile_tileData faceImageData tileX tileY config faceSize = \<dots>" .
  have "tx < sw" "ty < sh" using tx ty by (simp_all add: sw_def sh_def)
  then show ?thesis
    unfolding ts_def [symmetric] sX_def [symmetric] sY_def [symmetric] eq
      grid_loop_nth [OF swts(1) fits \<open>tx < sw\<close> \<open>ty < sh\<close> k]
    by (intro readStore_list4 guard k)
qed

lemma createTile_part000_tileData_copy:
  assumes len: "length faceImageData = faceSize * faceSize * 4"
    and tx: "tx < sourceWidth config faceSize tileX" and ty: "ty < sourceHeight config faceSize tileY"
    and k: "k < 4"
  shows "createTile_part000_tileData faceImageData tileX tileY config faceSize !
           ((ty * cfg_tileSize config + tx) * 4 + k) =
         faceImageData ! (((sourceY config tileY + ty) * faceSize + (sourceX config tileX + tx)) * 4 + k)"
proof -
  define ts where "ts = cfg_tileSize config"
  define sX where "sX = sourceX config tileX"
  define sY where "sY = sourceY config tileY"
  define sw where "sw = sourceWidth config faceSize tileX"
  define sh where "sh = sourceHeight config faceSize tileY"
  define d1 :: "8 word list" where "d1 = replicate (ts * ts * 4) 0"
  have d1: "length d1 = ts * ts * 4" unfolding d1_def by simp
  have guard: "((sY + y) * faceSize + (sX + x)) * 4 + 3 < length faceImageData"
    if "x < sw" "y < sh" for x y
    unfolding len
    using source_pixel_in_face(1,2) [of x config faceSize tileX y tileY] that
    by (intro face_index_in_range) (simp_all add: sX_def sY_def sw_def sh_def)
  have swts: "sw \<le> ts" "sh \<le> ts" by (simp_all add: sw_def sh_def ts_def sourceWidth_def sourceHeight_def)
  then have fits: "sh * ts * 4 \<le> length d1" unfolding d1 by simp
  have eq: "createTile_part000_tileData faceImageData tileX tileY config faceSize =
      fold (\<lambda>y d. fold (\<lambda>x d.
        d[(y * ts + x) * 4 := readStore faceImageData (((sY + y) * faceSize + (sX + x)) * 4),
               (y * ts + x) * 4 + 1 := readStore faceImageData (((sY + y) * faceSize + (sX + x)) * 4 + 1),
               (y * ts + x) * 4 + 2 := readStore faceImageData (((sY + y) * faceSize + (sX + x)) * 4 + 2),
               (y * ts + x) * 4 + 3 := readStore faceImageData (((sY + y) * faceSize + (sX + x)) * 4 + 3)])
        [0..<sw] d) [0..<sh] d1"
    unfolding createTile_part000_tileData_def Let_def ts_def sX_def sY_def sw_def sh_def d1_def ..
  have "tx < sw" "ty < sh" using tx ty by (simp_all add: sw_def sh_def)
  then show ?thesis
    unfolding ts_def [symmetric] sX_def [symmetric] sY_def [symmetric] eq
      grid_loop_nth [OF swts(1) fits \<open>tx < sw\<close> \<open>ty < sh\<close> k]
    by (intro readStore_list4 guard k)
qed

lemma for_each_Inr_iff: "for_each f xs = Inr ys \<longleftrightarrow> list_all2 (\<lambda>x y. f x = Inr y) xs ys"
proof (induction xs arbitrary: ys)
  case Nil
  then show ?case by auto
next
  case (Cons x xs)
  show ?case
  proof (cases "f x")
    case (Inl e)
    then show ?thesis by (auto simp: list_all2_Cons1)
  next
    case (Inr y)
    then show ?thesis using Cons.IH
      by (cases "for_each f xs") (auto simp: list_all2_Cons1)
  qed
qed

lemma for_each_total:
  assumes "\<And>x. x \<in> set xs \<Longrightarrow> \<exists>y. f x = Inr y"
  shows "\<exists>ys. for_each f xs = Inr ys"
  using assms
proof (induction xs)
  case Nil
  then show ?case by simp
next
  case (Cons x xs)
  then obtain y ys where "f x = Inr y" "for_each f xs = Inr ys"
    by (metis list.set_intros(1,2))
  then show ?case by simp
qed

lemma for_each_fails:
  assumes "x \<in> set xs" "f x = Inl e"
  shows "\<exists>e'. for_each f xs = Inl e'"
  using assms
proof (induction xs)
  case Nil
  then show ?case by simp
next
  case (Cons a xs)
  then show ?case
    by (cases "f a"; cases "for_each f xs") auto
qed

lemma sliceFace_count:
  assumes "sliceFace mkTile faceImageData config faceSize z faceName = Inr rows"
  shows "length (concat rows) = tilesPerSide config * tilesPerSide config"
proof -
  define T where "T = tilesPerSide config"
  from assms have rows: "list_all2 (\<lambda>y row. list_all2 (\<lambda>x t.
      (case mkTile faceImageData x y config faceSize of Inl e \<Rightarrow> Inl e
       | Inr tileBuffer \<Rightarrow> Inr ((z, faceName, y, x), tileBuffer)) = Inr t) [0..<T] row) [0..<T] rows"
    unfolding sliceFace_def for_each_Inr_iff T_def .
  then have "length rows = T"
    by (auto dest: list_all2_lengthD)
  moreover have "length row = T" if "row \<in> set rows" for row
  proof -
    from that obtain i where "i < length rows" "rows ! i = row" by (auto simp: in_set_conv_nth)
    with rows have "list_all2 (\<lambda>x t.
      (case mkTile faceImageData x ([0..<T] ! i) config faceSize of Inl e \<Rightarrow> Inl e
       | Inr tileBuffer \<Rightarrow> Inr ((z, faceName, [0..<T] ! i, x), tileBuffer)) = Inr t) [0..<T] row"
      by (auto dest: list_all2_nthD2)
    then show ?thesis by (auto dest: list_all2_lengthD)
  qed
  ultimately have "map length rows = replicate T T"
    by (simp add: map_replicate_const cong: map_cong)
  then show ?thesis
    by (simp add: length_concat sum_list_replicate T_def)
qed

lemma sliceFace_total:
  assumes "\<And>x y. \<exists>b. mkTile faceImageData x y config faceSize = Inr b"
  shows "\<exists>rows. sliceFace mkTile faceImageData config faceSize z faceName = Inr rows"
  unfolding sliceFace_def
proof (intro for_each_total)
  fix y x
  obtain b where "mkTile faceImageData x y config faceSize = Inr b" using assms by blast
  then show "\<exists>t. (case mkTile faceImageData x y config faceSize of Inl e \<Rightarrow> Inl e
       | Inr tileBuffer \<Rightarrow> Inr ((z, faceName, y, x), tileBuffer)) = Inr t"
    by simp
qed

lemma sliceFace_nth:
  assumes "sliceFace mkTile faceImageData config faceSize z faceName = Inr rows"
    and "row < tilesPerSide config" "col < tilesPerSide config"
  shows "length rows = tilesPerSide config \<and> length (rows ! row) = tilesPerSide config \<and>
         (\<exists>b. mkTile faceImageData col row config faceSize = Inr b \<and>
              rows ! row ! col = ((z, faceName, row, col), b))"
proof -
  define T where "T = tilesPerSide config"
  from assms(1) have rows: "list_all2 (\<lambda>y r. list_all2 (\<lambda>x t.
      (case mkTile faceImageData x y config faceSize of Inl e \<Rightarrow> Inl e
       | Inr tileBuffer \<Rightarrow> Inr ((z, faceName, y, x), tileBuffer)) = Inr t) [0..<T] r) [0..<T] rows"
    unfolding sliceFace_def for_each_Inr_iff T_def .
  then have l: "length rows = T" by (auto dest: list_all2_lengthD)
  have rT: "row < T" "col < T" using assms(2,3) by (simp_all add: T_def)
  have r: "list_all2 (\<lambda>x t.
      (case mkTile faceImageData x row config faceSize of Inl e \<Rightarrow> Inl e
       | Inr tileBuffer \<Rightarrow> Inr ((z, faceName, row, x), tileBuffer)) = Inr t) [0..<T] (rows ! row)"
    using list_all2_nthD [OF rows, of row] rT(1) by (simp cong: sum.case_cong)
  then have lr: "length (rows ! row) = T" by (auto dest: list_all2_lengthD)
  from list_all2_nthD [OF r, of col] rT(2)
  have "(case mkTile faceImageData col row config faceSize of Inl e \<Rightarrow> Inl e
       | Inr tileBuffer \<Rightarrow> Inr ((z, faceName, row, col), tileBuffer)) = Inr (rows ! row ! col)"
    by (simp cong: sum.case_cong)
  then have "\<exists>b. mkTile faceImageData col row config faceSize = Inr b \<and>
              rows ! row ! col = ((z, faceName, row, col), b)"
    by (cases "mkTile faceImageData col row config faceSize") auto
  with l lr show ?thesis by (simp add: T_def)
qed

lemma createTile_Inr:
  assumes "createTile convertToBlob fd x y config S = Inr b"
  shows "convertToBlob (createTile_tileData fd x y config S) 1 = Some b \<or>
         (convertToBlob (createTile_tileData fd x y config S) 1 = None \<and>
          convertToBlob (createTile_tileData fd x y config S) (9 / 10) = Some b)"
  using assms by (auto simp: createTile_def Let_def split: if_splits option.splits)

lemma createTile_part000_Inr:
  assumes "createTile_part000 convertToBlob fd x y config S = Inr b"
  shows "convertToBlob (createTile_part000_tileData fd x y config S) 1 = Some b"
  using assms by (auto simp: createTile_part000_def Let_def split: if_splits option.splits)

lemma fill_nth:
  fixes a0 a1 a2 a3 :: "8 word"
  assumes "p < n" "k < 4"
  shows "fold (\<lambda>j tileData. tileData[4 * j := a0, 4 * j + 1 := a1, 4 * j + 2 := a2, 4 * j + 3 := a3])
           [0..<(length (replicate (n * 4) (0 :: 8 word)) + 3) div 4] (replicate (n * 4) 0) ! (p * 4 + k) =
         [a0, a1, a2, a3] ! k"
proof -
  have n: "(length (replicate (n * 4) (0 :: 8 word)) + 3) div 4 = n" by simp
  have f: "(\<lambda>j tileData. tileData[4 * j := a0, 4 * j + 1 := a1, 4 * j + 2 := a2, 4 * j + 3 := a3]) =
           (\<lambda>x d. d[(0 + x) * 4 := a0, (0 + x) * 4 + 1 := a1, (0 + x) * 4 + 2 := a2, (0 + x) * 4 + 3 := a3])"
    by (simp add: mult.commute)
  have fits: "(0 + n) * 4 \<le> length (replicate (n * 4) (0 :: 8 word))" by simp
  from row_loop [OF fits, of "\<lambda>_. a0" "\<lambda>_. a1" "\<lambda>_. a2" "\<lambda>_. a3"] assms
  show ?thesis unfolding n f by simp
qed

lemma tile_pixel_div_mod:
  fixes tx ty ts :: nat
  assumes "tx < ts"
  shows "(ty * ts + tx) div ts = ty" "(ty * ts + tx) mod ts = tx"
  using assms by simp_all

lemma createTile_tileData_nth:
  assumes len: "length faceImageData = faceSize * faceSize * 4"
    and tx: "tx < cfg_tileSize config" and ty: "ty < cfg_tileSize config" and k: "k < 4"
  shows "createTile_tileData faceImageData tileX tileY config faceSize !
           ((ty * cfg_tileSize config + tx) * 4 + k) =
         (if tx < sourceWidth config faceSize tileX \<and> ty < sourceHeight config faceSize tileY
          then faceImageData ! (((sourceY config tileY + ty) * faceSize + (sourceX config tileX + tx)) * 4 + k)
          else [0, 0, 0, 255] ! k)"
    and "length (createTile_tileData faceImageData tileX tileY config faceSize) =
           cfg_tileSize config * cfg_tileSize config * 4"
proof -
  define ts where "ts = cfg_tileSize config"
  define sX where "sX = sourceX config tileX"
  define sY where "sY = sourceY config tileY"
  define sw where "sw = sourceWidth config faceSize tileX"
  define sh where "sh = sourceHeight config faceSize tileY"
  define d1 :: "8 word list" where "d1 = fold (\<lambda>j tileData. tileData[4 * j := 0, 4 * j + 1 := 0, 4 * j + 2 := 0, 4 * j + 3 := 255])
            [0..<(length (replicate (ts * ts * 4) (0 :: 8 word)) + 3) div 4] (replicate (ts * ts * 4) 0)"
  have d1: "length d1 = ts * ts * 4" unfolding d1_def fill_length by simp
  have guard: "((sY + y) * faceSize + (sX + x)) * 4 + 3 < length faceImageData"
    if "x < sw" "y < sh" for x y
    unfolding len
    using source_pixel_in_face(1,2) [of x config faceSize tileX y tileY] that
    by (intro face_index_in_range) (simp_all add: sX_def sY_def sw_def sh_def)
  have swts: "sw \<le> ts" "sh \<le> ts" by (simp_all add: sw_def sh_def ts_def sourceWidth_def sourceHeight_def)
  then have fits: "sh * ts * 4 \<le> length d1" unfolding d1 by simp
  have "createTile_tileData faceImageData tileX tileY config faceSize =
      fold (\<lambda>y d. fold (\<lambda>x d.
        if ((sY + y) * faceSize + (sX + x)) * 4 + 3 < length faceImageData
        then d[(y * ts + x) * 4 := readStore faceImageData (((sY + y) * faceSize + (sX + x)) * 4),
               (y * ts + x) * 4 + 1 := readStore faceImageData (((sY + y) * faceSize + (sX + x)) * 4 + 1),
               (y * ts + x) * 4 + 2 := readStore faceImageData (((sY + y) * faceSize + (sX + x)) * 4 + 2),
               (y * ts + x) * 4 + 3 := readStore faceImageData (((sY + y) * faceSize + (sX + x)) * 4 + 3)]
        else d) [0..<sw] d) [0..<sh] d1"
    unfolding createTile_tileData_def Let_def ts_def sX_def sY_def sw_def sh_def d1_def ..
  also have "\<dots> = fold (\<lambda>y d. fold (\<lambda>x d.
        d[(y * ts + x) * 4 := readStore faceImageData (((sY + y) * faceSize + (sX + x)) * 4),
               (y * ts + x) * 4 + 1 := readStore faceImageData (((sY + y) * faceSize + (sX + x)) * 4 + 1),
               (y * ts + x) * 4 + 2 := readStore faceImageData (((sY + y) * faceSize + (sX + x)) * 4 + 2),
               (y * ts + x) * 4 + 3 := readStore faceImageData (((sY + y) * faceSize + (sX + x)) * 4 + 3)])
        [0..<sw] d) [0..<sh] d1"
    by (rule guarded_grid) (rule guard)
  finally have eq: "createTile_tileData faceImageData tileX tileY config faceSize = \<dots>" .
  note g = grid_loop [OF swts(1) fits,
      of "\<lambda>x y. readStore faceImageData (((sY + y) * faceSize + (sX + x)) * 4)"
         "\<lambda>x y. readStore faceImageData (((sY + y) * faceSize + (sX + x)) * 4 + 1)"
         "\<lambda>x y. readStore faceImageData (((sY + y) * faceSize + (sX + x)) * 4 + 2)"
         "\<lambda>x y. readStore faceImageData (((sY + y) * faceSize + (sX + x)) * 4 + 3)"]
  show "length (createTile_tileData faceImageData tileX tileY config faceSize) =
           cfg_tileSize config * cfg_tileSize config * 4"
    unfolding eq using g d1 by (simp add: ts_def)
  have txs: "tx < ts" "ty < ts" using tx ty by (simp_all add: ts_def)
  have pp: "ty * ts + tx < ts * ts"
  proof -
    have "Suc ty * ts \<le> ts * ts" using txs(2) by (metis Suc_leI mult_le_mono1)
    then show ?thesis using txs(1) by simp
  qed
  have fill: "d1 ! ((ty * ts + tx) * 4 + k) = [0, 0, 0, 255] ! k"
    unfolding d1_def by (rule fill_nth [OF pp k])
  from g have nth: "fold (\<lambda>y d. fold (\<lambda>x d.
        d[(y * ts + x) * 4 := readStore faceImageData (((sY + y) * faceSize + (sX + x)) * 4),
               (y * ts + x) * 4 + 1 := readStore faceImageData (((sY + y) * faceSize + (sX + x)) * 4 + 1),
               (y * ts + x) * 4 + 2 := readStore faceImageData (((sY + y) * faceSize + (sX + x)) * 4 + 2),
               (y * ts + x) * 4 + 3 := readStore faceImageData (((sY + y) * faceSize + (sX + x)) * 4 + 3)])
        [0..<sw] d) [0..<sh] d1 ! ((ty * ts + tx) * 4 + k) =
      (if ty < sh \<and> tx < sw
       then [readStore faceImageData (((sY + ty) * faceSize + (sX + tx)) * 4),
             readStore faceImageData (((sY + ty) * faceSize + (sX + tx)) * 4 + 1),
             readStore faceImageData (((sY + ty) * faceSize + (sX + tx)) * 4 + 2),
             readStore faceImageData (((sY + ty) * faceSize + (sX + tx)) * 4 + 3)] ! k
       else d1 ! ((ty * ts + tx) * 4 + k))"
    using k tile_pixel_div_mod [OF txs(1), of ty] by (metis (no_types, lifting))
  show "createTile_tileData faceImageData tileX tileY config faceSize !
           ((ty * cfg_tileSize config + tx) * 4 + k) =
         (if tx < sourceWidth config faceSize tileX \<and> ty < sourceHeight config faceSize tileY
          then faceImageData ! (((sourceY config tileY + ty) * faceSize + (sourceX config tileX + tx)) * 4 + k)
          else [0, 0, 0, 255] ! k)"
  proof (cases "tx < sw \<and> ty < sh")
    case True
    then have "createTile_tileData faceImageData tileX tileY config faceSize !
           ((ty * ts + tx) * 4 + k) = faceImageData ! (((sY + ty) * faceSize + (sX + tx)) * 4 + k)"
      unfolding eq nth using readStore_list4 [OF guard k, of tx ty] by simp
    with True show ?thesis by (simp add: ts_def sX_def sY_def sw_def sh_def)
  next
    case False
    then have "createTile_tileData faceImageData tileX tileY config faceSize !
           ((ty * ts + tx) * 4 + k) = [0, 0, 0, 255] ! k"
      unfolding eq nth fill by auto
    with False show ?thesis by (auto simp: ts_def sX_def sY_def sw_def sh_def)
  qed
qed

lemma createTile_part000_tileData_nth:
  assumes len: "length faceImageData = faceSize * faceSize * 4"
    and tx: "tx < cfg_tileSize config" and ty: "ty < cfg_tileSize config" and k: "k < 4"
  shows "createTile_part000_tileData faceImageData tileX tileY config faceSize !
           ((ty * cfg_tileSize config + tx) * 4 + k) =
         (if tx < sourceWidth config faceSize tileX \<and> ty < sourceHeight config faceSize tileY
          then faceImageData ! (((sourceY config tileY + ty) * faceSize + (sourceX config tileX + tx)) * 4 + k)
          else 0)"
    and "length (createTile_part000_tileData faceImageData tileX tileY config faceSize) =
           cfg_tileSize config * cfg_tileSize config * 4"
proof -
  define ts where "ts = cfg_tileSize config"
  define sX where "sX = sourceX config tileX"
  define sY where "sY = sourceY config tileY"
  define sw where "sw = sourceWidth config faceSize tileX"
  define sh where "sh = sourceHeight config faceSize tileY"
  define d1 :: "8 word list" where "d1 = replicate (ts * ts * 4) 0"
  have d1: "length d1 = ts * ts * 4" unfolding d1_def by simp
  have guard: "((sY + y) * faceSize + (sX + x)) * 4 + 3 < length faceImageData"
    if "x < sw" "y < sh" for x y
    unfolding len
    using source_pixel_in_face(1,2) [of x config faceSize tileX y tileY] that
    by (intro face_index_in_range) (simp_all add: sX_def sY_def sw_def sh_def)
  have swts: "sw \<le> ts" "sh \<le> ts" by (simp_all add: sw_def sh_def ts_def sourceWidth_def sourceHeight_def)
  then have fits: "sh * ts * 4 \<le> length d1" unfolding d1 by simp
  have eq: "createTile_part000_tileData faceImageData tileX tileY config faceSize =
      fold (\<lambda>y d. fold (\<lambda>x d.
        d[(y * ts + x) * 4 := readStore faceImageData (((sY + y) * faceSize + (sX + x)) * 4),
               (y * ts + x) * 4 + 1 := readStore faceImageData (((sY + y) * faceSize + (sX + x)) * 4 + 1),
               (y * ts + x) * 4 + 2 := readStore faceImageData (((sY + y) * faceSize + (sX + x)) * 4 + 2),
               (y * ts + x) * 4 + 3 := readStore faceImageData (((sY + y) * faceSize + (sX + x)) * 4 + 3)])
        [0..<sw] d) [0..<sh] d1"
    unfolding createTile_part000_tileData_def Let_def ts_def sX_def sY_def sw_def sh_def d1_def ..
  note g = grid_loop [OF swts(1) fits,
      of "\<lambda>x y. readStore faceImageData (((sY + y) * faceSize + (sX + x)) * 4)"
         "\<lambda>x y. readStore faceImageData (((sY + y) * faceSize + (sX + x)) * 4 + 1)"
         "\<lambda>x y. readStore faceImageData (((sY + y) * faceSize + (sX + x)) * 4 + 2)"
         "\<lambda>x y. readStore faceImageData (((sY + y) * faceSize + (sX + x)) * 4 + 3)"]
  show "length (createTile_part000_tileData faceImageData tileX tileY config faceSize) =
           cfg_tileSize config * cfg_tileSize config * 4"
    unfolding eq using g d1 by (simp add: ts_def)
  have txs: "tx < ts" "ty < ts" using tx ty by (simp_all add: ts_def)
  have pp: "ty * ts + tx < ts * ts"
  proof -
    have "Suc ty * ts \<le> ts * ts" using txs(2) by (metis Suc_leI mult_le_mono1)
    then show ?thesis using txs(1) by simp
  qed
  have fill: "d1 ! ((ty * ts + tx) * 4 + k) = 0"
    unfolding d1_def using pp k by simp
  from g have nth: "fold (\<lambda>y d. fold (\<lambda>x d.
        d[(y * ts + x) * 4 := readStore faceImageData (((sY + y) * faceSize + (sX + x)) * 4),
               (y * ts + x) * 4 + 1 := readStore faceImageData (((sY + y) * faceSize + (sX + x)) * 4 + 1),
               (y * ts + x) * 4 + 2 := readStore faceImageData (((sY + y) * faceSize + (sX + x)) * 4 + 2),
               (y * ts + x) * 4 + 3 := readStore faceImageData (((sY + y) * faceSize + (sX + x)) * 4 + 3)])
        [0..<sw] d) [0..<sh] d1 ! ((ty * ts + tx) * 4 + k) =
      (if ty < sh \<and> tx < sw
       then [readStore faceImageData (((sY + ty) * faceSize + (sX + tx)) * 4),
             readStore faceImageData (((sY + ty) * faceSize + (sX + tx)) * 4 + 1),
             readStore faceImageData (((sY + ty) * faceSize + (sX + tx)) * 4 + 2),
             readStore faceImageData (((sY + ty) * faceSize + (sX + tx)) * 4 + 3)] ! k
       else d1 ! ((ty * ts + tx) * 4 + k))"
    using k tile_pixel_div_mod [OF txs(1), of ty] by (metis (no_types, lifting))
  show "createTile_part000_tileData faceImageData tileX tileY config faceSize !
           ((ty * cfg_tileSize config + tx) * 4 + k) =
         (if tx < sourceWidth config faceSize tileX \<and> ty < sourceHeight config faceSize tileY
          then faceImageData ! (((sourceY config tileY + ty) * faceSize + (sourceX config tileX + tx)) * 4 + k)
          else 0)"
  proof (cases "tx < sw \<and> ty < sh")
    case True
    then have "createTile_part000_tileData faceImageData tileX tileY config faceSize !
           ((ty * ts + tx) * 4 + k) = faceImageData ! (((sY + ty) * faceSize + (sX + tx)) * 4 + k)"
      unfolding eq nth using readStore_list4 [OF guard k, of tx ty] by simp
    with True show ?thesis by (simp add: ts_def sX_def sY_def sw_def sh_def)
  next
    case False
    then have "createTile_part000_tileData faceImageData tileX tileY config faceSize !
           ((ty * ts + tx) * 4 + k) = 0"
      unfolding eq nth fill by auto
    with False show ?thesis by (auto simp: ts_def sX_def sY_def sw_def sh_def)
  qed
qed

lemma cover_grid_explicit:
  assumes "0 < cfg_tileSize config" "px < cfg_size config" "py < cfg_size config"
  shows "\<exists>!t. fst t < tilesPerSide config \<and> snd t < tilesPerSide config \<and>
           snd t * cfg_tileSize config \<le> px \<and>
           px < snd t * cfg_tileSize config +
                  min (cfg_tileSize config) (cfg_size config - snd t * cfg_tileSize config) \<and>
           fst t * cfg_tileSize config \<le> py \<and>
           py < fst t * cfg_tileSize config +
                  min (cfg_tileSize config) (cfg_size config - fst t * cfg_tileSize config)"
proof -
  from cover_axis [OF assms(1,2)] obtain c where
    c: "c < tilesPerSide config \<and> sourceX config c \<le> px \<and>
           px < sourceX config c + sourceWidth config (cfg_size config) c"
    and cu: "\<And>c'. c' < tilesPerSide config \<and> sourceX config c' \<le> px \<and>
           px < sourceX config c' + sourceWidth config (cfg_size config) c' \<Longrightarrow> c' = c"
    by blast
  from cover_axis [OF assms(1,3)] obtain r where
    r: "r < tilesPerSide config \<and> sourceX config r \<le> py \<and>
           py < sourceX config r + sourceWidth config (cfg_size config) r"
    and ru: "\<And>r'. r' < tilesPerSide config \<and> sourceX config r' \<le> py \<and>
           py < sourceX config r' + sourceWidth config (cfg_size config) r' \<Longrightarrow> r' = r"
    by blast
  show ?thesis
  proof (rule ex1I [of _ "(r, c)"])
    show "fst (r, c) < tilesPerSide config \<and> snd (r, c) < tilesPerSide config \<and>
           snd (r, c) * cfg_tileSize config \<le> px \<and>
           px < snd (r, c) * cfg_tileSize config +
                  min (cfg_tileSize config) (cfg_size config - snd (r, c) * cfg_tileSize config) \<and>
           fst (r, c) * cfg_tileSize config \<le> py \<and>
           py < fst (r, c) * cfg_tileSize config +
                  min (cfg_tileSize config) (cfg_size config - fst (r, c) * cfg_tileSize config)"
      using c r by (simp add: sourceX_def sourceWidth_def)
  next
    fix t
    assume t: "fst t < tilesPerSide config \<and> snd t < tilesPerSide config \<and>
           snd t * cfg_tileSize config \<le> px \<and>
           px < snd t * cfg_tileSize config +
                  min (cfg_tileSize config) (cfg_size config - snd t * cfg_tileSize config) \<and>
           fst t * cfg_tileSize config \<le> py \<and>
           py < fst t * cfg_tileSize config +
                  min (cfg_tileSize config) (cfg_size config - fst t * cfg_tileSize config)"
    then have "snd t = c" by (intro cu) (simp add: sourceX_def sourceWidth_def)
    moreover from t have "fst t = r" by (intro ru) (simp add: sourceX_def sourceWidth_def)
    ultimately show "t = (r, c)" by (simp add: prod_eq_iff)
  qed
qed

lemma createTile_total:
  assumes "0 < cfg_tileSize config" "\<And>d q. \<exists>b. convertToBlob d q = Some b"
  shows "\<exists>b. createTile convertToBlob faceImageData x y config faceSize = Inr b"
proof -
  obtain b where "convertToBlob (createTile_tileData faceImageData x y config faceSize) 1 = Some b"
    using assms(2) by blast
  then show ?thesis using assms(1) by (simp add: createTile_def)
qed

lemma createTile_part000_total:
  assumes "0 < cfg_tileSize config" "\<And>d q. \<exists>b. convertToBlob d q = Some b"
  shows "\<exists>b. createTile_part000 convertToBlob faceImageData x y config faceSize = Inr b"
proof -
  obtain b where "convertToBlob (createTile_part000_tileData faceImageData x y config faceSize) 1 = Some b"
    using assms(2) by blast
  then show ?thesis using assms(1) by (simp add: createTile_part000_def)
qed

text \<open>
  Claim C5. For a face buffer of side \<open>faceSize > 0\<close> (the \<open>size\<close> of the level) and a
  tile size \<open>tileSize > 0\<close>, with either version of \<open>createTile\<close>. Slicing a face, when
  it succeeds, yields \<open>ceil (faceSize / tileSize)\<^sup>2\<close> tiles, in
  \<open>ceil (faceSize / tileSize)\<close> rows of as many tiles. The tile in the row \<open>row\<close> and
  the column \<open>col\<close> has the key \<open>z/f/row/col\<close>, and its bytes are what the encoder
  returns for the tile buffer that \<open>createTile\<close> fills for \<open>tileX = col\<close> and
  \<open>tileY = row\<close> (at quality 1.0; in the version that retries, at quality 0.9 when
  that failed). This buffer has \<open>tileSize \<times> tileSize\<close> pixels. Its pixel \<open>(tx, ty)\<close>
  is the pixel \<open>(col * tileSize + tx, row * tileSize + ty)\<close> of the face when
  \<open>tx < min tileSize (faceSize - col * tileSize)\<close> and
  \<open>ty < min tileSize (faceSize - row * tileSize)\<close>, copied byte by byte (nothing is
  resampled), and the fill otherwise: opaque black, or four zero bytes in the version
  without fill. Every pixel of the face lies in the copied region of exactly one tile
  of the grid, and no copied region leaves the face. The tiles before the last of a
  row or column have the extent \<open>tileSize\<close>, the last has \<open>faceSize mod tileSize\<close> when
  that is not 0, and \<open>tileSize\<close> otherwise. With an encoder that never fails, slicing
  succeeds.
\<close>

theorem tile_slicer:
  assumes "0 < cfg_size config" "0 < cfg_tileSize config"
    and "length faceImageData = cfg_size config * cfg_size config * 4"
  shows
    "(\<forall>rows. sliceFace (createTile convertToBlob) faceImageData config (cfg_size config) z faceName = Inr rows \<longrightarrow>
        length (concat rows) = tilesPerSide config * tilesPerSide config \<and>
        length rows = tilesPerSide config \<and>
        (\<forall>row col. row < tilesPerSide config \<and> col < tilesPerSide config \<longrightarrow>
           length (rows ! row) = tilesPerSide config \<and>
           (\<exists>blob. rows ! row ! col = ((z, faceName, row, col), blob) \<and>
              (convertToBlob (createTile_tileData faceImageData col row config (cfg_size config)) 1 = Some blob \<or>
               convertToBlob (createTile_tileData faceImageData col row config (cfg_size config)) 1 = None \<and>
               convertToBlob (createTile_tileData faceImageData col row config (cfg_size config)) (9 / 10) =
                 Some blob)))) \<and>
     (\<forall>rows. sliceFace (createTile_part000 convertToBlob) faceImageData config (cfg_size config) z faceName = Inr rows \<longrightarrow>
        length (concat rows) = tilesPerSide config * tilesPerSide config \<and>
        length rows = tilesPerSide config \<and>
        (\<forall>row col. row < tilesPerSide config \<and> col < tilesPerSide config \<longrightarrow>
           length (rows ! row) = tilesPerSide config \<and>
           (\<exists>blob. rows ! row ! col = ((z, faceName, row, col), blob) \<and>
              convertToBlob (createTile_part000_tileData faceImageData col row config (cfg_size config)) 1 =
                Some blob))) \<and>
     tilesPerSide config = nat \<lceil>real (cfg_size config) / real (cfg_tileSize config)\<rceil> \<and>
     (\<forall>row col.
        length (createTile_tileData faceImageData col row config (cfg_size config)) =
          cfg_tileSize config * cfg_tileSize config * 4 \<and>
        length (createTile_part000_tileData faceImageData col row config (cfg_size config)) =
          cfg_tileSize config * cfg_tileSize config * 4 \<and>
        (\<forall>tx ty k. tx < cfg_tileSize config \<and> ty < cfg_tileSize config \<and> k < 4 \<longrightarrow>
           createTile_tileData faceImageData col row config (cfg_size config) !
               ((ty * cfg_tileSize config + tx) * 4 + k) =
             (if tx < min (cfg_tileSize config) (cfg_size config - col * cfg_tileSize config) \<and>
                 ty < min (cfg_tileSize config) (cfg_size config - row * cfg_tileSize config)
              then faceImageData !
                 (((row * cfg_tileSize config + ty) * cfg_size config + (col * cfg_tileSize config + tx)) * 4 + k)
              else [0, 0, 0, 255] ! k) \<and>
           createTile_part000_tileData faceImageData col row config (cfg_size config) !
               ((ty * cfg_tileSize config + tx) * 4 + k) =
             (if tx < min (cfg_tileSize config) (cfg_size config - col * cfg_tileSize config) \<and>
                 ty < min (cfg_tileSize config) (cfg_size config - row * cfg_tileSize config)
              then faceImageData !
                 (((row * cfg_tileSize config + ty) * cfg_size config + (col * cfg_tileSize config + tx)) * 4 + k)
              else 0))) \<and>
     (\<forall>px py. px < cfg_size config \<and> py < cfg_size config \<longrightarrow>
        (\<exists>!t. fst t < tilesPerSide config \<and> snd t < tilesPerSide config \<and>
           snd t * cfg_tileSize config \<le> px \<and>
           px < snd t * cfg_tileSize config +
                  min (cfg_tileSize config) (cfg_size config - snd t * cfg_tileSize config) \<and>
           fst t * cfg_tileSize config \<le> py \<and>
           py < fst t * cfg_tileSize config +
                  min (cfg_tileSize config) (cfg_size config - fst t * cfg_tileSize config))) \<and>
     (\<forall>row col tx ty.
        tx < min (cfg_tileSize config) (cfg_size config - col * cfg_tileSize config) \<and>
        ty < min (cfg_tileSize config) (cfg_size config - row * cfg_tileSize config) \<longrightarrow>
        col * cfg_tileSize config + tx < cfg_size config \<and> row * cfg_tileSize config + ty < cfg_size config) \<and>
     (\<forall>c. Suc c < tilesPerSide config \<longrightarrow>
        min (cfg_tileSize config) (cfg_size config - c * cfg_tileSize config) = cfg_tileSize config) \<and>
     min (cfg_tileSize config) (cfg_size config - (tilesPerSide config - 1) * cfg_tileSize config) =
       (if cfg_size config mod cfg_tileSize config \<noteq> 0 then cfg_size config mod cfg_tileSize config
        else cfg_tileSize config) \<and>
     ((\<forall>tileData quality. \<exists>blob. convertToBlob tileData quality = Some blob) \<longrightarrow>
        (\<exists>rows. sliceFace (createTile convertToBlob) faceImageData config (cfg_size config) z faceName = Inr rows) \<and>
        (\<exists>rows. sliceFace (createTile_part000 convertToBlob) faceImageData config (cfg_size config) z faceName =
           Inr rows))"
proof -
  have link: "length (concat rows) = tilesPerSide config * tilesPerSide config \<and>
        length rows = tilesPerSide config \<and>
        (\<forall>row col. row < tilesPerSide config \<and> col < tilesPerSide config \<longrightarrow>
           length (rows ! row) = tilesPerSide config \<and>
           (\<exists>blob. rows ! row ! col = ((z, faceName, row, col), blob) \<and>
              (convertToBlob (createTile_tileData faceImageData col row config (cfg_size config)) 1 = Some blob \<or>
               convertToBlob (createTile_tileData faceImageData col row config (cfg_size config)) 1 = None \<and>
               convertToBlob (createTile_tileData faceImageData col row config (cfg_size config)) (9 / 10) =
                 Some blob)))"
    if s: "sliceFace (createTile convertToBlob) faceImageData config (cfg_size config) z faceName = Inr rows"
    for rows
  proof (intro conjI allI impI)
    show "length (concat rows) = tilesPerSide config * tilesPerSide config"
      using s by (rule sliceFace_count)
    show "length rows = tilesPerSide config"
      using sliceFace_nth [OF s, of 0 0] tps_pos [OF assms(2,1)] by simp
  next
    fix row col :: nat
    assume rc: "row < tilesPerSide config \<and> col < tilesPerSide config"
    from sliceFace_nth [OF s, of row col] rc
    obtain b where b: "length (rows ! row) = tilesPerSide config"
      "createTile convertToBlob faceImageData col row config (cfg_size config) = Inr b"
      "rows ! row ! col = ((z, faceName, row, col), b)"
      by blast
    show "length (rows ! row) = tilesPerSide config" by (rule b(1))
    show "\<exists>blob. rows ! row ! col = ((z, faceName, row, col), blob) \<and>
              (convertToBlob (createTile_tileData faceImageData col row config (cfg_size config)) 1 = Some blob \<or>
               convertToBlob (createTile_tileData faceImageData col row config (cfg_size config)) 1 = None \<and>
               convertToBlob (createTile_tileData faceImageData col row config (cfg_size config)) (9 / 10) =
                 Some blob)"
      using b(3) createTile_Inr [OF b(2)] by blast
  qed
  have link0: "length (concat rows) = tilesPerSide config * tilesPerSide config \<and>
        length rows = tilesPerSide config \<and>
        (\<forall>row col. row < tilesPerSide config \<and> col < tilesPerSide config \<longrightarrow>
           length (rows ! row) = tilesPerSide config \<and>
           (\<exists>blob. rows ! row ! col = ((z, faceName, row, col), blob) \<and>
              convertToBlob (createTile_part000_tileData faceImageData col row config (cfg_size config)) 1 =
                Some blob))"
    if s: "sliceFace (createTile_part000 convertToBlob) faceImageData config (cfg_size config) z faceName = Inr rows"
    for rows
  proof (intro conjI allI impI)
    show "length (concat rows) = tilesPerSide config * tilesPerSide config"
      using s by (rule sliceFace_count)
    show "length rows = tilesPerSide config"
      using sliceFace_nth [OF s, of 0 0] tps_pos [OF assms(2,1)] by simp
  next
    fix row col :: nat
    assume rc: "row < tilesPerSide config \<and> col < tilesPerSide config"
    from sliceFace_nth [OF s, of row col] rc
    obtain b where b: "length (rows ! row) = tilesPerSide config"
      "createTile_part000 convertToBlob faceImageData col row config (cfg_size config) = Inr b"
      "rows ! row ! col = ((z, faceName, row, col), b)"
      by blast
    show "length (rows ! row) = tilesPerSide config" by (rule b(1))
    show "\<exists>blob. rows ! row ! col = ((z, faceName, row, col), blob) \<and>
              convertToBlob (createTile_part000_tileData faceImageData col row config (cfg_size config)) 1 =
                Some blob"
      using b(3) createTile_part000_Inr [OF b(2)] by blast
  qed
  have data: "length (createTile_tileData faceImageData col row config (cfg_size config)) =
          cfg_tileSize config * cfg_tileSize config * 4 \<and>
        length (createTile_part000_tileData faceImageData col row config (cfg_size config)) =
          cfg_tileSize config * cfg_tileSize config * 4 \<and>
        (\<forall>tx ty k. tx < cfg_tileSize config \<and> ty < cfg_tileSize config \<and> k < 4 \<longrightarrow>
           createTile_tileData faceImageData col row config (cfg_size config) !
               ((ty * cfg_tileSize config + tx) * 4 + k) =
             (if tx < min (cfg_tileSize config) (cfg_size config - col * cfg_tileSize config) \<and>
                 ty < min (cfg_tileSize config) (cfg_size config - row * cfg_tileSize config)
              then faceImageData !
                 (((row * cfg_tileSize config + ty) * cfg_size config + (col * cfg_tileSize config + tx)) * 4 + k)
              else [0, 0, 0, 255] ! k) \<and>
           createTile_part000_tileData faceImageData col row config (cfg_size config) !
               ((ty * cfg_tileSize config + tx) * 4 + k) =
             (if tx < min (cfg_tileSize config) (cfg_size config - col * cfg_tileSize config) \<and>
                 ty < min (cfg_tileSize config) (cfg_size config - row * cfg_tileSize config)
              then faceImageData !
                 (((row * cfg_tileSize config + ty) * cfg_size config + (col * cfg_tileSize config + tx)) * 4 + k)
              else 0))"
    for row col
  proof (intro conjI allI impI)
    show "length (createTile_tileData faceImageData col row config (cfg_size config)) =
          cfg_tileSize config * cfg_tileSize config * 4"
      by (rule createTile_tileData_nth(2) [OF assms(3), of 0 config 0 0]) (simp_all add: assms(2))
    show "length (createTile_part000_tileData faceImageData col row config (cfg_size config)) =
          cfg_tileSize config * cfg_tileSize config * 4"
      by (rule createTile_part000_tileData_nth(2) [OF assms(3), of 0 config 0 0]) (simp_all add: assms(2))
  next
    fix tx ty k :: nat
    assume a: "tx < cfg_tileSize config \<and> ty < cfg_tileSize config \<and> k < 4"
    then have a': "tx < cfg_tileSize config" "ty < cfg_tileSize config" "k < 4" by simp_all
    show "createTile_tileData faceImageData col row config (cfg_size config) !
               ((ty * cfg_tileSize config + tx) * 4 + k) =
             (if tx < min (cfg_tileSize config) (cfg_size config - col * cfg_tileSize config) \<and>
                 ty < min (cfg_tileSize config) (cfg_size config - row * cfg_tileSize config)
              then faceImageData !
                 (((row * cfg_tileSize config + ty) * cfg_size config + (col * cfg_tileSize config + tx)) * 4 + k)
              else [0, 0, 0, 255] ! k)"
      unfolding createTile_tileData_nth(1) [OF assms(3) a']
      by (simp only: sourceX_def sourceY_def sourceWidth_def sourceHeight_def)
    show "createTile_part000_tileData faceImageData col row config (cfg_size config) !
               ((ty * cfg_tileSize config + tx) * 4 + k) =
             (if tx < min (cfg_tileSize config) (cfg_size config - col * cfg_tileSize config) \<and>
                 ty < min (cfg_tileSize config) (cfg_size config - row * cfg_tileSize config)
              then faceImageData !
                 (((row * cfg_tileSize config + ty) * cfg_size config + (col * cfg_tileSize config + tx)) * 4 + k)
              else 0)"
      unfolding createTile_part000_tileData_nth(1) [OF assms(3) a']
      by (simp only: sourceX_def sourceY_def sourceWidth_def sourceHeight_def)
  qed
  have cover: "\<exists>!t. fst t < tilesPerSide config \<and> snd t < tilesPerSide config \<and>
           snd t * cfg_tileSize config \<le> px \<and>
           px < snd t * cfg_tileSize config +
                  min (cfg_tileSize config) (cfg_size config - snd t * cfg_tileSize config) \<and>
           fst t * cfg_tileSize config \<le> py \<and>
           py < fst t * cfg_tileSize config +
                  min (cfg_tileSize config) (cfg_size config - fst t * cfg_tileSize config)"
    if "px < cfg_size config \<and> py < cfg_size config" for px py
    using that by (intro cover_grid_explicit assms(2)) simp_all
  have inside: "col * cfg_tileSize config + tx < cfg_size config \<and> row * cfg_tileSize config + ty < cfg_size config"
    if "tx < min (cfg_tileSize config) (cfg_size config - col * cfg_tileSize config) \<and>
        ty < min (cfg_tileSize config) (cfg_size config - row * cfg_tileSize config)" for row col tx ty
    using that by auto
  have inner: "min (cfg_tileSize config) (cfg_size config - c * cfg_tileSize config) = cfg_tileSize config"
    if "Suc c < tilesPerSide config" for c
    using extent_inner [OF assms(2) that] .
  note last = extent_last [OF assms(2,1)]
  have total: "(\<exists>rows. sliceFace (createTile convertToBlob) faceImageData config (cfg_size config) z faceName = Inr rows) \<and>
        (\<exists>rows. sliceFace (createTile_part000 convertToBlob) faceImageData config (cfg_size config) z faceName =
           Inr rows)"
    if e: "\<forall>tileData quality. \<exists>blob. convertToBlob tileData quality = Some blob"
  proof
    from e have e': "\<And>d q. \<exists>b. convertToBlob d q = Some b" by blast
    show "\<exists>rows. sliceFace (createTile convertToBlob) faceImageData config (cfg_size config) z faceName = Inr rows"
      by (rule sliceFace_total) (rule createTile_total [OF assms(2) e'])
    show "\<exists>rows. sliceFace (createTile_part000 convertToBlob) faceImageData config (cfg_size config) z faceName =
           Inr rows"
      by (rule sliceFace_total) (rule createTile_part000_total [OF assms(2) e'])
  qed
  show ?thesis
    apply (intro conjI)
             apply (intro allI impI, erule link)
            apply (intro allI impI, erule link0)
           apply (simp add: tilesPerSide_def)
          apply (intro allI, rule data)
         apply (intro allI impI, erule cover)
        apply (intro allI impI, erule inside)
       apply (intro allI impI, erule inner)
      apply (rule last)
    apply (rule impI, erule total)
    done
qed

theorem tile_slicer_witness:
  "0 < cfg_size cfg_3_2 \<and> 0 < cfg_tileSize cfg_3_2 \<and>
   length face3 = cfg_size cfg_3_2 * cfg_size cfg_3_2 * 4 \<and>
   tilesPerSide cfg_3_2 = 2 \<and>
   (\<exists>rows. sliceFace (createTile keep_pixels) face3 cfg_3_2 (cfg_size cfg_3_2) 0 CHR ''d'' = Inr rows \<and>
      length (concat rows) = 4 \<and>
      rows ! 1 ! 0 = ((0, CHR ''d'', 1, 0), createTile_tileData face3 0 1 cfg_3_2 3)) \<and>
   createTile_tileData face3 0 1 cfg_3_2 3 ! 0 = 24 \<and>
   createTile_tileData face3 0 1 cfg_3_2 3 ! 4 = 28 \<and>
   createTile_tileData face3 0 1 cfg_3_2 3 ! 8 = 0 \<and>
   createTile_tileData face3 0 1 cfg_3_2 3 ! 11 = 255 \<and>
   createTile_part000_tileData face3 0 1 cfg_3_2 3 ! 4 = 28 \<and>
   createTile_part000_tileData face3 0 1 cfg_3_2 3 ! 11 = 0 \<and>
   (\<exists>!t. fst t < 2 \<and> snd t < 2 \<and>
      snd t * 2 \<le> (0::nat) \<and> 0 < snd t * 2 + min 2 (3 - snd t * 2) \<and>
      fst t * 2 \<le> (2::nat) \<and> 2 < fst t * 2 + min 2 (3 - fst t * 2))"
proof -
  have h: "0 < cfg_size cfg_3_2" "0 < cfg_tileSize cfg_3_2"
    "length face3 = cfg_size cfg_3_2 * cfg_size cfg_3_2 * 4"
    by (simp_all add: cfg_3_2_def face3_def)
  have sz: "cfg_size cfg_3_2 = 3" "cfg_tileSize cfg_3_2 = 2" by (simp_all add: cfg_3_2_def)
  have tps: "tilesPerSide cfg_3_2 = 2" by (simp add: tilesPerSide_def sz)
  note T = tile_slicer [OF h, of keep_pixels 0 "CHR ''d''"]
  have "\<forall>tileData quality. \<exists>blob. keep_pixels tileData quality = Some blob"
    by (simp add: keep_pixels_def)
  from T [THEN conjunct2, THEN conjunct2, THEN conjunct2, THEN conjunct2, THEN conjunct2, THEN conjunct2,
      THEN conjunct2, THEN conjunct2, THEN mp, OF this, THEN conjunct1]
  obtain rows where rows: "sliceFace (createTile keep_pixels) face3 cfg_3_2 (cfg_size cfg_3_2) 0 CHR ''d'' = Inr rows"
    by blast
  note L = T [THEN conjunct1, rule_format, OF rows]
  from L [THEN conjunct1] have n: "length (concat rows) = 4" by (simp add: tps)
  from L [THEN conjunct2, THEN conjunct2, rule_format, of 1 0, THEN conjunct2]
  have key: "rows ! 1 ! 0 = ((0, CHR ''d'', 1, 0), createTile_tileData face3 0 1 cfg_3_2 3)"
    by (auto simp: tps sz keep_pixels_def)
  note D = T [THEN conjunct2, THEN conjunct2, THEN conjunct2, THEN conjunct1, rule_format,
      of 0 1, THEN conjunct2, THEN conjunct2, rule_format]
  have f: "face3 ! 24 = 24" "face3 ! 28 = 28" by (simp_all add: face3_def)
  from D [of 0 0 0] f have c0: "createTile_tileData face3 0 1 cfg_3_2 3 ! 0 = 24" by (simp add: sz)
  from D [of 1 0 0] f have c4: "createTile_tileData face3 0 1 cfg_3_2 3 ! 4 = 28"
      "createTile_part000_tileData face3 0 1 cfg_3_2 3 ! 4 = 28" by (simp_all add: sz)
  from D [of 0 1 0] have c8: "createTile_tileData face3 0 1 cfg_3_2 3 ! 8 = 0" by (simp add: sz)
  from D [of 0 1 3] have c11: "createTile_tileData face3 0 1 cfg_3_2 3 ! 11 = 255"
      "createTile_part000_tileData face3 0 1 cfg_3_2 3 ! 11 = 0" by (simp_all add: sz)
  from T [THEN conjunct2, THEN conjunct2, THEN conjunct2, THEN conjunct2, THEN conjunct1, rule_format, of 0 2]
  have cov: "\<exists>!t. fst t < 2 \<and> snd t < 2 \<and>
      snd t * 2 \<le> (0::nat) \<and> 0 < snd t * 2 + min 2 (3 - snd t * 2) \<and>
      fst t * 2 \<le> (2::nat) \<and> 2 < fst t * 2 + min 2 (3 - fst t * 2)"
    by (simp add: tps sz)
  from rows n key have ex: "\<exists>rows. sliceFace (createTile keep_pixels) face3 cfg_3_2 (cfg_size cfg_3_2) 0 CHR ''d'' = Inr rows \<and>
      length (concat rows) = 4 \<and>
      rows ! 1 ! 0 = ((0, CHR ''d'', 1, 0), createTile_tileData face3 0 1 cfg_3_2 3)"
    by blast
  show ?thesis by (intro conjI h tps ex c0 c4 c8 c11 cov)
qed

section \<open>Rounding to the nearest double\<close>

text \<open>
  Rounding moves a number by at most half the spacing of the doubles around it, which
  is at most \<open>2 ^ -43\<close> for a number of magnitude at most 1024; it leaves the
  integers below \<open>2 ^ 53\<close> and the dyadic fractions with such a numerator as they
  are; and it is monotone on the numbers that are not negative.
\<close>

lemma round_half_even_cases:
  "round_half_even r = \<lfloor>r\<rfloor> \<and> r \<le> of_int \<lfloor>r\<rfloor> + 1 / 2 \<or>
   round_half_even r = \<lfloor>r\<rfloor> + 1 \<and> of_int \<lfloor>r\<rfloor> + 1 / 2 \<le> r"
  by (auto simp: round_half_even_def Let_def)

lemma round_half_even_error: "\<bar>of_int (round_half_even r) - r\<bar> \<le> 1 / 2"
proof -
  have "of_int \<lfloor>r\<rfloor> \<le> r" "r < of_int \<lfloor>r\<rfloor> + 1" by linarith+
  then show ?thesis using round_half_even_cases [of r] by (elim disjE conjE) simp_all
qed

lemma round_half_even_mono:
  assumes "r \<le> s"
  shows "round_half_even r \<le> round_half_even s"
proof -
  have fg: "\<lfloor>r\<rfloor> \<le> \<lfloor>s\<rfloor>" using assms by (rule floor_mono)
  show ?thesis
  proof (cases "\<lfloor>r\<rfloor> = \<lfloor>s\<rfloor>")
    case False
    with fg have "\<lfloor>r\<rfloor> + 1 \<le> \<lfloor>s\<rfloor>" by simp
    moreover have "round_half_even r \<le> \<lfloor>r\<rfloor> + 1" using round_half_even_cases [of r] by auto
    moreover have "\<lfloor>s\<rfloor> \<le> round_half_even s" using round_half_even_cases [of s] by auto
    ultimately show ?thesis by linarith
  next
    case True
    then show ?thesis using assms
      by (auto simp: round_half_even_def Let_def)
  qed
qed

lemma pow2_pos: "0 < (2::real) powr a"
  by simp

lemma floor_log2_bounds:
  assumes "0 < x"
  shows "2 powr of_int \<lfloor>log 2 x\<rfloor> \<le> x" "x < 2 powr of_int (\<lfloor>log 2 x\<rfloor> + 1)"
proof -
  have "of_int \<lfloor>log 2 x\<rfloor> \<le> log 2 x" by simp
  then have "2 powr of_int \<lfloor>log 2 x\<rfloor> \<le> 2 powr log 2 x" by (simp add: powr_mono)
  then show "2 powr of_int \<lfloor>log 2 x\<rfloor> \<le> x" using assms by simp
  have "log 2 x < of_int (\<lfloor>log 2 x\<rfloor> + 1)" by linarith
  then have "2 powr log 2 x < 2 powr of_int (\<lfloor>log 2 x\<rfloor> + 1)" by (simp only: powr_less_cancel_iff)
  then show "x < 2 powr of_int (\<lfloor>log 2 x\<rfloor> + 1)" using assms by simp
qed

lemma to_double_0: "to_double 0 = 0"
  by (simp add: to_double_def)

lemma to_double_error_ulp:
  "\<bar>to_double x - x\<bar> \<le> 2 powr of_int (ulp_exponent x) / 2"
proof (cases "x = 0")
  case True
  then show ?thesis by (simp add: to_double_def)
next
  case False
  define q :: real where "q = 2 powr of_int (ulp_exponent x)"
  have q: "0 < q" by (simp add: q_def)
  have "to_double x - x = q * (of_int (round_half_even (x / q)) - x / q)"
    using False q by (simp add: to_double_def q_def algebra_simps)
  then have "\<bar>to_double x - x\<bar> = q * \<bar>of_int (round_half_even (x / q)) - x / q\<bar>"
    using q by (simp add: abs_mult)
  also have "\<dots> \<le> q * (1 / 2)"
    using q round_half_even_error [of "x / q"] by (intro mult_left_mono) simp_all
  finally show ?thesis by (simp add: q_def)
qed

lemma ulp_exponent_le:
  assumes "x \<noteq> 0" "\<bar>x\<bar> \<le> 2 powr of_int n" "- 1022 \<le> n"
  shows "ulp_exponent x \<le> n - 52"
proof -
  have "log 2 \<bar>x\<bar> \<le> log 2 (2 powr of_int n)"
    using assms(1,2) by (simp only: log_le_cancel_iff)
  then have "log 2 \<bar>x\<bar> \<le> of_int n" by simp
  then have "\<lfloor>log 2 \<bar>x\<bar>\<rfloor> \<le> n" by (simp add: floor_le_iff)
  then show ?thesis using assms(3) by (simp add: ulp_exponent_def)
qed

lemma ulp_exponent_less:
  assumes "x \<noteq> 0" "\<bar>x\<bar> < 2 powr of_int n" "- 1021 \<le> n"
  shows "ulp_exponent x \<le> n - 53"
proof -
  have "log 2 \<bar>x\<bar> < log 2 (2 powr of_int n)"
    using assms(1,2) by (simp only: log_less_cancel_iff)
  then have "log 2 \<bar>x\<bar> < of_int n" by simp
  then have "\<lfloor>log 2 \<bar>x\<bar>\<rfloor> < n" by (simp add: floor_less_iff)
  then show ?thesis using assms(3) by (simp add: ulp_exponent_def)
qed

lemma to_double_error:
  assumes "\<bar>x\<bar> \<le> 1024"
  shows "\<bar>to_double x - x\<bar> \<le> 1 / 2 ^ 43"
proof (cases "x = 0")
  case True
  then show ?thesis by (simp add: to_double_def)
next
  case False
  have "(2::real) powr of_int 10 = 1024" by (simp add: powr_int)
  with assms have "\<bar>x\<bar> \<le> 2 powr of_int 10" by simp
  from ulp_exponent_le [OF False this] have e: "ulp_exponent x \<le> - 42" by simp
  have "\<bar>to_double x - x\<bar> \<le> 2 powr of_int (ulp_exponent x) / 2"
    by (rule to_double_error_ulp)
  also have "\<dots> \<le> 2 powr of_int (- 42) / 2"
    using e by (intro divide_right_mono powr_mono) simp_all
  also have "\<dots> = 1 / 2 ^ 43" by (simp add: powr_neg_numeral)
  finally show ?thesis .
qed

lemma to_double_grid:
  assumes "x = of_int m * 2 powr of_int (ulp_exponent x)"
  shows "to_double x = x"
proof (cases "x = 0")
  case True
  then show ?thesis by (simp add: to_double_def)
next
  case False
  have "x / 2 powr of_int (ulp_exponent x) = of_int m"
    by (subst assms) simp
  then show ?thesis using False assms by (simp add: to_double_def round_half_even_int)
qed

lemma to_double_dyadic:
  assumes "\<bar>m\<bar> < 2 ^ 53" "j \<le> 1074"
  shows "to_double (of_int m / 2 ^ j) = of_int m / 2 ^ j"
proof (cases "m = 0")
  case True
  then show ?thesis by (simp add: to_double_def)
next
  case False
  define x :: real where "x = of_int m / 2 ^ j"
  have x0: "x \<noteq> 0" using False by (simp add: x_def)
  have "\<bar>x\<bar> = of_int \<bar>m\<bar> / 2 ^ j" by (simp add: x_def abs_divide)
  also have "\<dots> < 2 ^ 53 / 2 ^ j"
  proof (intro divide_strict_right_mono)
    have "real_of_int \<bar>m\<bar> < real_of_int (2 ^ 53)" using assms(1) by (simp only: of_int_less_iff)
    then show "real_of_int \<bar>m\<bar> < 2 ^ 53" by simp
  qed simp
  also have "\<dots> = 2 powr of_int (53 - int j)"
    by (simp add: powr_diff powr_realpow)
  finally have "\<bar>x\<bar> < 2 powr of_int (53 - int j)" .
  from ulp_exponent_less [OF x0 this] assms(2) have e: "ulp_exponent x \<le> - int j" by simp
  define k where "k = nat (- int j - ulp_exponent x)"
  have k: "int k = - int j - ulp_exponent x" using e by (simp add: k_def)
  have "2 powr of_int (- int j) = (2::real) powr of_int (int k + ulp_exponent x)"
    using k by simp
  also have "\<dots> = 2 ^ k * 2 powr of_int (ulp_exponent x)"
    by (simp add: powr_add powr_realpow)
  finally have p: "2 powr of_int (- int j) = 2 ^ k * (2::real) powr of_int (ulp_exponent x)" .
  have "(2::real) powr of_int (- int j) = 1 / 2 ^ j"
    by (simp add: powr_minus powr_realpow divide_simps)
  then have "x = of_int m * 2 powr of_int (- int j)" by (simp add: x_def)
  also have "\<dots> = of_int (m * 2 ^ k) * 2 powr of_int (ulp_exponent x)"
    unfolding p by simp
  finally have "to_double x = x" by (rule to_double_grid)
  then show ?thesis by (simp add: x_def)
qed

lemma to_double_of_int:
  assumes "\<bar>m\<bar> < 2 ^ 53"
  shows "to_double (of_int m) = of_int m"
  using to_double_dyadic [OF assms, of 0] by simp

lemma to_double_of_nat:
  assumes "n < 2 ^ 53"
  shows "to_double (real n) = real n"
proof -
  have "\<bar>int n\<bar> < 2 ^ 53" using assms by (simp add: of_nat_less_iff [of n "2 ^ 53", where 'a = int, simplified])
  from to_double_of_int [OF this] show ?thesis by simp
qed

lemma to_double_nonneg:
  assumes "0 \<le> x"
  shows "0 \<le> to_double x"
proof (cases "x = 0")
  case True
  then show ?thesis by (simp add: to_double_def)
next
  case False
  have "0 \<le> x / 2 powr of_int (ulp_exponent x)" using assms by simp
  from round_half_even_mono [OF this] have "0 \<le> round_half_even (x / 2 powr of_int (ulp_exponent x))"
    using round_half_even_int [of 0] by simp
  then show ?thesis using False by (simp add: to_double_def)
qed

lemma to_double_upper:
  assumes "0 < x"
  shows "to_double x \<le> 2 powr of_int (ulp_exponent x + 53)"
proof -
  define e where "e = ulp_exponent x"
  define q :: real where "q = 2 powr of_int e"
  have q: "0 < q" by (simp add: q_def)
  have td: "to_double x = of_int (round_half_even (x / q)) * q"
    using assms by (simp add: to_double_def q_def e_def)
  have p: "2 powr of_int (e + 53) = 2 ^ 53 * q" by (simp add: q_def powr_add)
  have "\<lfloor>log 2 x\<rfloor> + 1 \<le> e + 53" using assms by (simp add: e_def ulp_exponent_def)
  then have m: "(2::real) powr of_int (\<lfloor>log 2 x\<rfloor> + 1) \<le> 2 powr of_int (e + 53)"
    by (intro powr_mono) simp_all
  have "x \<le> 2 powr of_int (\<lfloor>log 2 x\<rfloor> + 1)"
    using floor_log2_bounds(2) [OF assms] by (rule less_imp_le)
  also note m
  also note p
  finally have "x / q \<le> of_int (2 ^ 53)" using q by (simp add: divide_simps)
  from round_half_even_mono [OF this] have "round_half_even (x / q) \<le> 2 ^ 53"
    by (simp only: round_half_even_int)
  then have "real_of_int (round_half_even (x / q)) \<le> real_of_int (2 ^ 53)" by (simp only: of_int_le_iff)
  then have "of_int (round_half_even (x / q)) * q \<le> real_of_int (2 ^ 53) * q"
    using q by (intro mult_right_mono) simp_all
  also have "\<dots> = 2 powr of_int (e + 53)" unfolding p by simp
  finally show ?thesis unfolding td e_def .
qed

lemma to_double_lower:
  assumes "0 < x" "- 1074 < ulp_exponent x"
  shows "2 powr of_int (ulp_exponent x + 52) \<le> to_double x"
proof -
  define e where "e = ulp_exponent x"
  define q :: real where "q = 2 powr of_int e"
  have q: "0 < q" by (simp add: q_def)
  have td: "to_double x = of_int (round_half_even (x / q)) * q"
    using assms by (simp add: to_double_def q_def e_def)
  have p: "2 powr of_int (e + 52) = 2 ^ 52 * q" by (simp add: q_def powr_add)
  from assms(2) have "e + 52 = \<lfloor>log 2 x\<rfloor>"
    using assms(1) by (simp add: e_def ulp_exponent_def max_def split: if_splits)
  with floor_log2_bounds(1) [OF assms(1)] have "2 powr of_int (e + 52) \<le> x" by simp
  then have "2 ^ 52 * q \<le> x" unfolding p .
  then have "of_int (2 ^ 52) \<le> x / q" using q by (simp add: divide_simps)
  from round_half_even_mono [OF this] have "2 ^ 52 \<le> round_half_even (x / q)"
    by (simp only: round_half_even_int)
  then have "real_of_int (2 ^ 52) \<le> real_of_int (round_half_even (x / q))" by (simp only: of_int_le_iff)
  then have "real_of_int (2 ^ 52) * q \<le> of_int (round_half_even (x / q)) * q"
    using q by (intro mult_right_mono) simp_all
  moreover have "real_of_int (2 ^ 52) * q = 2 powr of_int (e + 52)" unfolding p by simp
  ultimately have "2 powr of_int (e + 52) \<le> of_int (round_half_even (x / q)) * q" by simp
  then show ?thesis unfolding td e_def .
qed

lemma ulp_exponent_mono:
  assumes "0 < x" "x \<le> y"
  shows "ulp_exponent x \<le> ulp_exponent y"
proof -
  have "log 2 x \<le> log 2 y" using assms by simp
  then have "\<lfloor>log 2 x\<rfloor> \<le> \<lfloor>log 2 y\<rfloor>" by (rule floor_mono)
  then show ?thesis using assms by (simp add: ulp_exponent_def)
qed

lemma to_double_mono:
  assumes "0 \<le> x" "x \<le> y"
  shows "to_double x \<le> to_double y"
proof (cases "x = 0")
  case True
  then show ?thesis using to_double_nonneg [of y] assms by (simp add: to_double_0)
next
  case False
  with assms have x: "0 < x" and y: "0 < y" by simp_all
  show ?thesis
  proof (cases "ulp_exponent x = ulp_exponent y")
    case True
    define q :: real where "q = 2 powr of_int (ulp_exponent y)"
    have q: "0 < q" by (simp add: q_def)
    have "x / q \<le> y / q" using assms(2) q by (simp add: divide_right_mono)
    from round_half_even_mono [OF this]
    have "real_of_int (round_half_even (x / q)) \<le> real_of_int (round_half_even (y / q))"
      by (simp only: of_int_le_iff)
    then have "of_int (round_half_even (x / q)) * q \<le> of_int (round_half_even (y / q)) * q"
      using q by (intro mult_right_mono) simp_all
    then show ?thesis using x y True by (simp add: to_double_def q_def)
  next
    case False
    with ulp_exponent_mono [OF x assms(2)] have lt: "ulp_exponent x < ulp_exponent y" by simp
    have "- 1074 \<le> ulp_exponent x" by (simp add: ulp_exponent_def)
    with lt have "- 1074 < ulp_exponent y" by simp
    from to_double_lower [OF y this] have lo: "2 powr of_int (ulp_exponent y + 52) \<le> to_double y" .
    have "to_double x \<le> 2 powr of_int (ulp_exponent x + 53)" by (rule to_double_upper [OF x])
    also have "\<dots> \<le> 2 powr of_int (ulp_exponent y + 52)"
      using lt by (intro powr_mono) simp_all
    finally show ?thesis using lo by simp
  qed
qed

section \<open>The sampler reads inside the source image\<close>

lemma to_double_1: "to_double 1 = 1"
  using to_double_of_nat [of 1] by simp

lemma to_double_byte:
  assumes "n \<le> 255"
  shows "to_double (real n) = real n"
  using assms by (intro to_double_of_nat) simp

lemma double_index_bounds:
  assumes "0 \<le> u" "u \<le> 1" "1 \<le> w" "w \<le> 2 ^ 53"
  shows "0 \<le> \<lfloor>to_double (u * (real w - 1))\<rfloor>" "\<lfloor>to_double (u * (real w - 1))\<rfloor> \<le> int w - 1"
    "0 \<le> to_double (u * (real w - 1))"
proof -
  have w0: "0 \<le> real w - 1" using assms(3) by simp
  have p0: "0 \<le> u * (real w - 1)" using assms(1) w0 by simp
  show x0: "0 \<le> to_double (u * (real w - 1))" using p0 by (rule to_double_nonneg)
  then show "0 \<le> \<lfloor>to_double (u * (real w - 1))\<rfloor>" by simp
  have "u * (real w - 1) \<le> 1 * (real w - 1)"
    using assms(2) w0 by (rule mult_right_mono)
  then have "u * (real w - 1) \<le> real (w - 1)" using assms(3) by (simp add: of_nat_diff)
  from to_double_mono [OF p0 this] have "to_double (u * (real w - 1)) \<le> to_double (real (w - 1))" .
  also have "to_double (real (w - 1)) = real (w - 1)"
    using assms(3,4) by (intro to_double_of_nat) simp
  finally have "\<lfloor>to_double (u * (real w - 1))\<rfloor> \<le> \<lfloor>real (w - 1)\<rfloor>"
    by (rule floor_mono)
  then show "\<lfloor>to_double (u * (real w - 1))\<rfloor> \<le> int w - 1"
    using assms(3) by (simp add: of_nat_diff)
qed

lemma double_frac_bounds:
  "0 \<le> to_double (x - of_int \<lfloor>x\<rfloor>)" "to_double (x - of_int \<lfloor>x\<rfloor>) \<le> 1"
proof -
  have f: "0 \<le> x - of_int \<lfloor>x\<rfloor>" "x - of_int \<lfloor>x\<rfloor> \<le> 1" by linarith+
  show "0 \<le> to_double (x - of_int \<lfloor>x\<rfloor>)" using f(1) by (rule to_double_nonneg)
  show "to_double (x - of_int \<lfloor>x\<rfloor>) \<le> 1" using to_double_mono [OF f] by (simp add: to_double_1)
qed

lemma lerp4_double_Num:
  "lerp4_double fx fy (Num c1) (Num c2) (Num c3) (Num c4) = Num (bilinear_double fx fy c1 c2 c3 c4)"
  by (simp add: bilinear_double_def Let_def)

lemma sample_double_unfold:
  assumes "clamp01 u0 = Num u" "clamp01 v0 = Num v"
    and "x = to_double (u * (real width - 1))" "y = to_double (v * (real height - 1))"
    and "x1 = \<lfloor>x\<rfloor>" "y1 = \<lfloor>y\<rfloor>"
    and "x2 = min (x1 + 1) (int width - 1)" "y2 = min (y1 + 1) (int height - 1)"
    and "fx = to_double (x - of_int x1)" "fy = to_double (y - of_int y1)"
  shows "sampleEquirectangularBilinear_double d u0 v0 width height =
    (Math_round (lerp4_double fx fy (readByte d ((y1 * int width + x1) * 4)) (readByte d ((y1 * int width + x2) * 4))
        (readByte d ((y2 * int width + x1) * 4)) (readByte d ((y2 * int width + x2) * 4))),
     Math_round (lerp4_double fx fy (readByte d ((y1 * int width + x1) * 4 + 1)) (readByte d ((y1 * int width + x2) * 4 + 1))
        (readByte d ((y2 * int width + x1) * 4 + 1)) (readByte d ((y2 * int width + x2) * 4 + 1))),
     Math_round (lerp4_double fx fy (readByte d ((y1 * int width + x1) * 4 + 2)) (readByte d ((y1 * int width + x2) * 4 + 2))
        (readByte d ((y2 * int width + x1) * 4 + 2)) (readByte d ((y2 * int width + x2) * 4 + 2))))"
  unfolding sampleEquirectangularBilinear_double_def Let_def assms by simp

lemma sample_double_in_bounds:
  assumes w: "1 \<le> width" and h: "1 \<le> height" and len: "length d = 4 * width * height"
    and small: "length d \<le> 2 ^ 53"
    and cu: "clamp01 u0 = Num u" and cv: "clamp01 v0 = Num v"
    and u: "0 \<le> u" "u \<le> 1" and v: "0 \<le> v" "v \<le> 1"
    and x: "x = to_double (u * (real width - 1))" and y: "y = to_double (v * (real height - 1))"
    and x1: "x1 = \<lfloor>x\<rfloor>" and y1: "y1 = \<lfloor>y\<rfloor>"
    and x2: "x2 = min (x1 + 1) (int width - 1)" and y2: "y2 = min (y1 + 1) (int height - 1)"
    and fx: "fx = to_double (x - of_int x1)" and fy: "fy = to_double (y - of_int y1)"
  shows "sampleEquirectangularBilinear_double d u0 v0 width height =
    (Math_round (Num (bilinear_double fx fy (channel d width x1 y1 0) (channel d width x2 y1 0)
        (channel d width x1 y2 0) (channel d width x2 y2 0))),
     Math_round (Num (bilinear_double fx fy (channel d width x1 y1 1) (channel d width x2 y1 1)
        (channel d width x1 y2 1) (channel d width x2 y2 1))),
     Math_round (Num (bilinear_double fx fy (channel d width x1 y1 2) (channel d width x2 y1 2)
        (channel d width x1 y2 2) (channel d width x2 y2 2))))"
    and "0 \<le> x1 \<and> x1 < int width \<and> 0 \<le> x2 \<and> x2 < int width"
    and "0 \<le> y1 \<and> y1 < int height \<and> 0 \<le> y2 \<and> y2 < int height"
    and "0 \<le> fx \<and> fx \<le> 1 \<and> 0 \<le> fy \<and> fy \<le> 1"
proof -
  have "width * 1 \<le> width * (4 * height)" using h by (intro mult_le_mono2) simp
  also have "width * (4 * height) = length d" using len by (simp add: mult_ac)
  also note small
  finally have ws: "width \<le> 2 ^ 53" by simp
  have "height * 1 \<le> height * (4 * width)" using w by (intro mult_le_mono2) simp
  also have "height * (4 * width) = length d" using len by (simp add: mult_ac)
  also note small
  finally have hs: "height \<le> 2 ^ 53" by simp
  have bx: "0 \<le> x1" "x1 \<le> int width - 1" unfolding x1 x using double_index_bounds [OF u w ws] by simp_all
  have yb: "0 \<le> y1" "y1 \<le> int height - 1" unfolding y1 y using double_index_bounds [OF v h hs] by simp_all
  show X: "0 \<le> x1 \<and> x1 < int width \<and> 0 \<le> x2 \<and> x2 < int width"
    using bx w unfolding x2 by simp
  show Y: "0 \<le> y1 \<and> y1 < int height \<and> 0 \<le> y2 \<and> y2 < int height"
    using yb h unfolding y2 by simp
  show "0 \<le> fx \<and> fx \<le> 1 \<and> 0 \<le> fy \<and> fy \<le> 1"
    unfolding fx fy x1 y1 using double_frac_bounds [of x] double_frac_bounds [of y] by simp
  have r: "readByte d ((py * int width + px) * 4 + k) = Num (channel d width px py k)"
    if "px = x1 \<or> px = x2" "py = y1 \<or> py = y2" "k = 0 \<or> k = 1 \<or> k = 2" for px py k
    using that X Y by (intro readByte_pixel [OF len]) auto
  have r0: "readByte d ((py * int width + px) * 4) = Num (channel d width px py 0)"
    if "px = x1 \<or> px = x2" "py = y1 \<or> py = y2" for px py
    using r [OF that, of 0] by simp
  show "sampleEquirectangularBilinear_double d u0 v0 width height =
    (Math_round (Num (bilinear_double fx fy (channel d width x1 y1 0) (channel d width x2 y1 0)
        (channel d width x1 y2 0) (channel d width x2 y2 0))),
     Math_round (Num (bilinear_double fx fy (channel d width x1 y1 1) (channel d width x2 y1 1)
        (channel d width x1 y2 1) (channel d width x2 y2 1))),
     Math_round (Num (bilinear_double fx fy (channel d width x1 y1 2) (channel d width x2 y1 2)
        (channel d width x1 y2 2) (channel d width x2 y2 2))))"
    unfolding sample_double_unfold [OF cu cv x y x1 y1 x2 y2 fx fy]
    by (simp only: r r0 lerp4_double_Num simp_thms)
qed

lemma to_double_numeral:
  assumes "(numeral n :: nat) < 2 ^ 53"
  shows "to_double (numeral n) = numeral n"
  using to_double_of_nat [OF assms] by simp

lemma to_double_half: "to_double (1 / 2) = 1 / 2"
  using to_double_dyadic [of 1 1] by simp

text \<open>
  Claim C7, in double arithmetic. For numbers \<open>u0\<close> and \<open>v0\<close> (not NaN) and a source
  buffer of \<open>width \<times> height\<close> RGBA pixels with \<open>width \<ge> 1\<close> and \<open>height \<ge> 1\<close> (its
  length, as that of any typed array, is at most \<open>2 ^ 53\<close>): the sampler clamps both
  coordinates into \<open>[0, 1]\<close>, takes \<open>x1 = floor (u * (width - 1))\<close>,
  \<open>y1 = floor (v * (height - 1))\<close>, \<open>x2 = min (x1 + 1) (width - 1)\<close> and
  \<open>y2 = min (y1 + 1) (height - 1)\<close> (no wrap-around at the seam), the two products
  rounded to doubles; the four indices lie in \<open>[0, width - 1]\<close> and \<open>[0, height - 1]\<close>;
  each of the twelve reads (four corners, three channels) is a read of an element of
  the buffer; and the result is, channel by channel, the rounding by \<open>Math.round\<close> of
  the blend of the four corner values that \<open>interpolate\<close> computes in doubles.
\<close>

theorem sampler_reads_in_bounds:
  assumes "1 \<le> width" "1 \<le> height" "length imgData = 4 * width * height"
    and "length imgData \<le> 2 ^ 53"
    and "\<not> is_NaN u0" "\<not> is_NaN v0"
  shows "\<exists>u v x y x1 y1 x2 y2 fx fy.
     clamp01 u0 = Num u \<and> clamp01 v0 = Num v \<and> 0 \<le> u \<and> u \<le> 1 \<and> 0 \<le> v \<and> v \<le> 1 \<and>
     x = to_double (u * (real width - 1)) \<and> y = to_double (v * (real height - 1)) \<and>
     x1 = \<lfloor>x\<rfloor> \<and> y1 = \<lfloor>y\<rfloor> \<and>
     x2 = min (x1 + 1) (int width - 1) \<and> y2 = min (y1 + 1) (int height - 1) \<and>
     fx = to_double (x - of_int x1) \<and> fy = to_double (y - of_int y1) \<and>
     0 \<le> x1 \<and> x1 \<le> int width - 1 \<and> 0 \<le> x2 \<and> x2 \<le> int width - 1 \<and>
     0 \<le> y1 \<and> y1 \<le> int height - 1 \<and> 0 \<le> y2 \<and> y2 \<le> int height - 1 \<and>
     (\<forall>px py k. (px = x1 \<or> px = x2) \<and> (py = y1 \<or> py = y2) \<and> (k = 0 \<or> k = 1 \<or> k = 2) \<longrightarrow>
        0 \<le> (py * int width + px) * 4 + k \<and>
        (py * int width + px) * 4 + k < int (length imgData) \<and>
        readByte imgData ((py * int width + px) * 4 + k) = Num (channel imgData width px py k)) \<and>
     sampleEquirectangularBilinear_double imgData u0 v0 width height =
      (Math_round (Num (bilinear_double fx fy (channel imgData width x1 y1 0) (channel imgData width x2 y1 0)
          (channel imgData width x1 y2 0) (channel imgData width x2 y2 0))),
       Math_round (Num (bilinear_double fx fy (channel imgData width x1 y1 1) (channel imgData width x2 y1 1)
          (channel imgData width x1 y2 1) (channel imgData width x2 y2 1))),
       Math_round (Num (bilinear_double fx fy (channel imgData width x1 y1 2) (channel imgData width x2 y1 2)
          (channel imgData width x1 y2 2) (channel imgData width x2 y2 2))))"
proof -
  obtain u where u: "clamp01 u0 = Num u" "0 \<le> u" "u \<le> 1"
    using clamp01_Num [OF assms(5)] by blast
  obtain v where v: "clamp01 v0 = Num v" "0 \<le> v" "v \<le> 1"
    using clamp01_Num [OF assms(6)] by blast
  define x where "x = to_double (u * (real width - 1))"
  define y where "y = to_double (v * (real height - 1))"
  define x1 where "x1 = \<lfloor>x\<rfloor>"
  define y1 where "y1 = \<lfloor>y\<rfloor>"
  define x2 where "x2 = min (x1 + 1) (int width - 1)"
  define y2 where "y2 = min (y1 + 1) (int height - 1)"
  define fx where "fx = to_double (x - of_int x1)"
  define fy where "fy = to_double (y - of_int y1)"
  note s = sample_double_in_bounds [OF assms(1-4) u(1) v(1) u(2,3) v(2,3) x_def y_def x1_def y1_def
      x2_def y2_def fx_def fy_def]
  have reads: "0 \<le> (py * int width + px) * 4 + k \<and>
        (py * int width + px) * 4 + k < int (length imgData) \<and>
        readByte imgData ((py * int width + px) * 4 + k) = Num (channel imgData width px py k)"
    if a: "(px = x1 \<or> px = x2) \<and> (py = y1 \<or> py = y2) \<and> (k = 0 \<or> k = 1 \<or> k = 2)" for px py k
  proof -
    from a s(2,3) have b: "0 \<le> px" "px < int width" "0 \<le> py" "py < int height" "0 \<le> k" "k < 4"
      by auto
    from pixel_index_in_range [OF b] readByte_pixel [OF assms(3) b] show ?thesis
      by (simp add: assms(3))
  qed
  have bounds: "0 \<le> x1 \<and> x1 \<le> int width - 1 \<and> 0 \<le> x2 \<and> x2 \<le> int width - 1 \<and>
     0 \<le> y1 \<and> y1 \<le> int height - 1 \<and> 0 \<le> y2 \<and> y2 \<le> int height - 1"
    using s(2,3) by simp
  have "clamp01 u0 = Num u \<and> clamp01 v0 = Num v \<and> 0 \<le> u \<and> u \<le> 1 \<and> 0 \<le> v \<and> v \<le> 1 \<and>
     x = to_double (u * (real width - 1)) \<and> y = to_double (v * (real height - 1)) \<and>
     x1 = \<lfloor>x\<rfloor> \<and> y1 = \<lfloor>y\<rfloor> \<and>
     x2 = min (x1 + 1) (int width - 1) \<and> y2 = min (y1 + 1) (int height - 1) \<and>
     fx = to_double (x - of_int x1) \<and> fy = to_double (y - of_int y1) \<and>
     0 \<le> x1 \<and> x1 \<le> int width - 1 \<and> 0 \<le> x2 \<and> x2 \<le> int width - 1 \<and>
     0 \<le> y1 \<and> y1 \<le> int height - 1 \<and> 0 \<le> y2 \<and> y2 \<le> int height - 1 \<and>
     (\<forall>px py k. (px = x1 \<or> px = x2) \<and> (py = y1 \<or> py = y2) \<and> (k = 0 \<or> k = 1 \<or> k = 2) \<longrightarrow>
        0 \<le> (py * int width + px) * 4 + k \<and>
        (py * int width + px) * 4 + k < int (length imgData) \<and>
        readByte imgData ((py * int width + px) * 4 + k) = Num (channel imgData width px py k)) \<and>
     sampleEquirectangularBilinear_double imgData u0 v0 width height =
      (Math_round (Num (bilinear_double fx fy (channel imgData width x1 y1 0) (channel imgData width x2 y1 0)
          (channel imgData width x1 y2 0) (channel imgData width x2 y2 0))),
       Math_round (Num (bilinear_double fx fy (channel imgData width x1 y1 1) (channel imgData width x2 y1 1)
          (channel imgData width x1 y2 1) (channel imgData width x2 y2 1))),
       Math_round (Num (bilinear_double fx fy (channel imgData width x1 y1 2) (channel imgData width x2 y1 2)
          (channel imgData width x1 y2 2) (channel imgData width x2 y2 2))))"
    apply (intro conjI allI impI)
    apply (rule u v x_def y_def x1_def y1_def x2_def y2_def fx_def fy_def
        bounds [THEN conjunct1]
        bounds [THEN conjunct2, THEN conjunct1]
        bounds [THEN conjunct2, THEN conjunct2, THEN conjunct1]
        bounds [THEN conjunct2, THEN conjunct2, THEN conjunct2, THEN conjunct1]
        bounds [THEN conjunct2, THEN conjunct2, THEN conjunct2, THEN conjunct2, THEN conjunct1]
        bounds [THEN conjunct2, THEN conjunct2, THEN conjunct2, THEN conjunct2, THEN conjunct2, THEN conjunct1]
        bounds [THEN conjunct2, THEN conjunct2, THEN conjunct2, THEN conjunct2, THEN conjunct2, THEN conjunct2,
          THEN conjunct1]
        bounds [THEN conjunct2, THEN conjunct2, THEN conjunct2, THEN conjunct2, THEN conjunct2, THEN conjunct2,
          THEN conjunct2]
        reads [THEN conjunct1] reads [THEN conjunct2, THEN conjunct1] reads [THEN conjunct2, THEN conjunct2]
        s(1) | assumption)+
    done
  then show ?thesis by (intro exI)
qed

theorem sampler_reads_in_bounds_witness:
  "(1::nat) \<le> 2 \<and> (1::nat) \<le> 1 \<and>
   length [10, 20, 30, 255, 50, 60, 70, 255 :: 8 word] = 4 * 2 * 1 \<and>
   length [10, 20, 30, 255, 50, 60, 70, 255 :: 8 word] \<le> 2 ^ 53 \<and>
   sampleEquirectangularBilinear_double [10, 20, 30, 255, 50, 60, 70, 255] (Num (1 / 2)) (Num 5) 2 1 =
     (Num 30, Num 40, Num 50)"
proof -
  define d :: "8 word list" where "d = [10, 20, 30, 255, 50, 60, 70, 255]"
  have "(1::nat) \<le> 2" "(1::nat) \<le> 1" "length d = 4 * 2 * 1" "length d \<le> 2 ^ 53"
    "\<not> is_NaN (Num (1 / 2))" "\<not> is_NaN (Num 5)"
    by (simp_all add: d_def)
  from sampler_reads_in_bounds [OF this]
  obtain u v x y x1 y1 x2 y2 fx fy where
    c: "clamp01 (Num (1 / 2)) = Num u" "clamp01 (Num 5) = Num v"
    and i: "x = to_double (u * (real 2 - 1))" "y = to_double (v * (real 1 - 1))"
    "x1 = \<lfloor>x\<rfloor>" "y1 = \<lfloor>y\<rfloor>"
    "x2 = min (x1 + 1) (int 2 - 1)" "y2 = min (y1 + 1) (int 1 - 1)"
    "fx = to_double (x - of_int x1)" "fy = to_double (y - of_int y1)"
    and s: "sampleEquirectangularBilinear_double d (Num (1 / 2)) (Num 5) 2 1 =
      (Math_round (Num (bilinear_double fx fy (channel d 2 x1 y1 0) (channel d 2 x2 y1 0)
          (channel d 2 x1 y2 0) (channel d 2 x2 y2 0))),
       Math_round (Num (bilinear_double fx fy (channel d 2 x1 y1 1) (channel d 2 x2 y1 1)
          (channel d 2 x1 y2 1) (channel d 2 x2 y2 1))),
       Math_round (Num (bilinear_double fx fy (channel d 2 x1 y1 2) (channel d 2 x2 y1 2)
          (channel d 2 x1 y2 2) (channel d 2 x2 y2 2))))"
    by (elim exE conjE) (rule that)
  from c have uv: "u = 1 / 2" "v = 1" by simp_all
  have fl: "\<lfloor>1 / 2 :: real\<rfloor> = 0" by simp
  from i(1,2) have xy: "x = 1 / 2" "y = 0" unfolding uv by (simp_all add: to_double_half to_double_0)
  from i(3-8) have j: "x1 = 0" "y1 = 0" "x2 = 1" "y2 = 0" "fx = 1 / 2" "fy = 0"
    unfolding xy by (simp_all add: fl to_double_half to_double_0)
  have "sampleEquirectangularBilinear_double d (Num (1 / 2)) (Num 5) 2 1 = (Num 30, Num 40, Num 50)"
    unfolding s j
    by (simp add: channel_def bilinear_double_def d_def to_double_half to_double_0 to_double_1 to_double_numeral)
  then show ?thesis by (simp add: d_def)
qed

text \<open>
  An example of what rounding changes. On an image of two pixels with the red values
  1 and 2, at \<open>u = 1/2 - 2 ^ -54\<close> (the largest double below one half), the blend is
  \<open>3/2\<close> in doubles, which \<open>Math.round\<close> takes to 2; the ideal blend is
  \<open>3/2 - 2 ^ -54\<close>, which it takes to 1.
\<close>

lemma ulp_exponent_eq:
  assumes "2 powr of_int n \<le> \<bar>x\<bar>" "\<bar>x\<bar> < 2 powr of_int (n + 1)" "- 1022 \<le> n"
  shows "ulp_exponent x = n - 52"
proof -
  have x: "0 < \<bar>x\<bar>" using assms(1) by (rule less_le_trans [OF pow2_pos])
  have lo: "of_int n \<le> log 2 \<bar>x\<bar>" using assms(1) x by (simp add: le_log_iff)
  have hi: "log 2 \<bar>x\<bar> < of_int n + 1" using assms(2) x by (simp add: log_less_iff add.commute)
  from lo hi have "\<lfloor>log 2 \<bar>x\<bar>\<rfloor> = n" by linarith
  then show ?thesis using assms(3) by (simp add: ulp_exponent_def)
qed

lemma to_double_tie_down: "to_double (1 / 2 + 1 / 2 ^ 54) = 1 / 2"
proof -
  have e: "ulp_exponent (1 / 2 + 1 / 2 ^ 54) = - 1 - 52"
    by (rule ulp_exponent_eq) (simp_all add: powr_neg_numeral powr_minus)
  have q: "(2::real) powr of_int (- 1 - 52) = 1 / 2 ^ 53" by (simp add: powr_neg_numeral)
  show ?thesis
    unfolding to_double_def e q by (simp add: round_half_even_def)
qed

lemma to_double_tie_up: "to_double (3 / 2 - 1 / 2 ^ 53) = 3 / 2"
proof -
  have e: "ulp_exponent (3 / 2 - 1 / 2 ^ 53) = 0 - 52"
    by (rule ulp_exponent_eq) simp_all
  have q: "(2::real) powr of_int (0 - 52) = 1 / 2 ^ 52" by (simp add: powr_neg_numeral)
  show ?thesis
    unfolding to_double_def e q by (simp add: round_half_even_def)
qed

lemma double_rounding_example:
  "sampleEquirectangularBilinear_double [1, 0, 0, 255, 2, 0, 0, 255] (Num (1 / 2 - 1 / 2 ^ 54)) (Num 0) 2 1 =
     (Num 2, Num 0, Num 0) \<and>
   sampleEquirectangularBilinear [1, 0, 0, 255, 2, 0, 0, 255] (Num (1 / 2 - 1 / 2 ^ 54)) (Num 0) 2 1 =
     (Num 1, Num 0, Num 0)"
proof -
  define U :: real where "U = 1 / 2 - 1 / 2 ^ 54"
  define d :: "8 word list" where "d = [1, 0, 0, 255, 2, 0, 0, 255]"
  have U01: "0 \<le> U" "U \<le> 1" "0 < U" "U < 1" by (simp_all add: U_def)
  have cu: "clamp01 (Num U) = Num U" using U01 by simp
  have cv: "clamp01 (Num 0) = Num 0" by simp
  have Ueq: "U = real_of_int (2 ^ 53 - 1) / 2 ^ 54" by (simp add: U_def)
  have tU: "to_double U = U" unfolding Ueq by (rule to_double_dyadic) simp_all
  have fU: "\<lfloor>U\<rfloor> = 0" using U01 by linarith
  have x: "U = to_double (U * (real 2 - 1))" by (simp add: tU)
  have y: "0 = to_double (0 * (real 1 - 1))" by (simp add: to_double_0)
  have x1: "0 = \<lfloor>U\<rfloor>" by (simp add: fU)
  have y1: "0 = \<lfloor>0 :: real\<rfloor>" by simp
  have x2: "1 = min ((0::int) + 1) (int 2 - 1)" by simp
  have y2: "0 = min ((0::int) + 1) (int 1 - 1)" by simp
  have fx: "U = to_double (U - of_int 0)" by (simp add: tU)
  have fy: "0 = to_double (0 - of_int 0)" by (simp add: to_double_0)
  have "1 - U = 1 / 2 + 1 / 2 ^ 54" by (simp add: U_def)
  then have a: "to_double (1 - U) = 1 / 2" by (simp only: to_double_tie_down)
  have p: "to_double (1 * (1 / 2)) = 1 / 2" by (simp add: to_double_half)
  have U2: "2 * U = real_of_int (2 ^ 53 - 1) / 2 ^ 53" by (simp add: U_def)
  have q: "to_double (2 * U) = 2 * U" unfolding U2 by (rule to_double_dyadic) simp_all
  have "1 / 2 + 2 * U = 3 / 2 - 1 / 2 ^ 53" by (simp add: U_def)
  then have s: "to_double (1 / 2 + 2 * U) = 3 / 2" by (simp only: to_double_tie_up)
  have i: "to_double (3 / 2) = 3 / 2" using to_double_dyadic [of 3 1] by simp
  have b: "bilinear_double U 0 1 2 1 2 = 3 / 2"
    unfolding bilinear_double_def a p q s by (simp add: to_double_1 to_double_0 i)
  have z: "bilinear_double U 0 0 0 0 0 = 0"
    unfolding bilinear_double_def by (simp add: to_double_0)
  have r: "Math_round (Num (3 / 2)) = Num 2"
  proof -
    have "\<lfloor>3 / 2 + 1 / 2 :: real\<rfloor> = 2" by simp
    then show ?thesis by simp
  qed
  have D: "sampleEquirectangularBilinear_double d (Num U) (Num 0) 2 1 = (Num 2, Num 0, Num 0)"
    unfolding sample_double_unfold [OF cu cv x y x1 y1 x2 y2 fx fy]
    by (simp add: d_def readByte_def lerp4_double_Num b z r del: lerp4_double.simps Math_round.simps)
       (simp add: to_double_0)
  have ix: "0 = \<lfloor>U * (real 2 - 1)\<rfloor>" by (simp add: fU)
  have iy: "0 = \<lfloor>0 * (real 1 - 1) :: real\<rfloor>" by simp
  have jx: "U = U * (real 2 - 1) - of_int 0" by simp
  have jy: "0 = 0 * (real 1 - 1) - real_of_int 0" by simp
  have bi: "bilinear U 0 1 2 1 2 = 1 + U" by (simp add: bilinear_def)
  have zi: "bilinear U 0 0 0 0 0 = 0" by (simp add: bilinear_def)
  have ri: "Math_round (Num (bilinear U 0 1 2 1 2)) = Num 1"
  proof -
    have "U < 1 / 2" by (simp add: U_def)
    then have "\<lfloor>1 + U + 1 / 2\<rfloor> = 1" using U01 by linarith
    then show ?thesis unfolding bi using U01 by simp
  qed
  have r0: "Math_round (Num 0) = Num 0" by simp
  have I: "sampleEquirectangularBilinear d (Num U) (Num 0) 2 1 = (Num 1, Num 0, Num 0)"
    unfolding sample_unfold [OF cu cv ix iy x2 y2 jx jy]
    by (simp add: d_def readByte_def lerp4_Num ri zi r0 del: lerp4.simps Math_round.simps)
  from D I show ?thesis by (simp add: U_def d_def)
qed

text \<open>In double arithmetic too, the sampler returns the corner pixels as they are.\<close>

lemma to_double_channel: "to_double (channel imgData width px py c) = channel imgData width px py c"
proof -
  have "unat (imgData ! nat ((py * int width + px) * 4 + c)) < 2 ^ 8"
    using unsigned_less [of "imgData ! nat ((py * int width + px) * 4 + c)", where 'a = nat] by simp
  then have "unat (imgData ! nat ((py * int width + px) * 4 + c)) \<le> 255" by simp
  then show ?thesis unfolding channel_def by (rule to_double_byte)
qed

lemma bilinear_double_00:
  assumes "to_double c1 = c1"
  shows "bilinear_double 0 0 c1 c2 c3 c4 = c1"
  by (simp add: bilinear_double_def to_double_0 to_double_1 assms)

lemma sample_double_corners:
  assumes "1 \<le> width" "1 \<le> height" "length imgData = 4 * width * height" "length imgData \<le> 2 ^ 53"
    and "a \<le> 0" "b \<le> 0" "1 \<le> a'" "1 \<le> b'"
  shows "sampleEquirectangularBilinear_double imgData (Num a) (Num b) width height =
           (Num (channel imgData width 0 0 0), Num (channel imgData width 0 0 1),
            Num (channel imgData width 0 0 2)) \<and>
         sampleEquirectangularBilinear_double imgData (Num a') (Num b') width height =
           (Num (channel imgData width (int width - 1) (int height - 1) 0),
            Num (channel imgData width (int width - 1) (int height - 1) 1),
            Num (channel imgData width (int width - 1) (int height - 1) 2))"
proof -
  from assms(5,6) have c0: "clamp01 (Num a) = Num 0" "clamp01 (Num b) = Num 0" by simp_all
  from assms(7,8) have c1: "clamp01 (Num a') = Num 1" "clamp01 (Num b') = Num 1" by simp_all
  have "width * 1 \<le> width * (4 * height)" using assms(2) by (intro mult_le_mono2) simp
  also have "width * (4 * height) = length imgData" using assms(3) by (simp add: mult_ac)
  also note assms(4)
  finally have ws: "width - 1 < 2 ^ 53" using assms(1) by simp
  have "height * 1 \<le> height * (4 * width)" using assms(1) by (intro mult_le_mono2) simp
  also have "height * (4 * width) = length imgData" using assms(3) by (simp add: mult_ac)
  also note assms(4)
  finally have hs: "height - 1 < 2 ^ 53" using assms(2) by simp
  have tw: "to_double (real width - 1) = real width - 1"
    using to_double_of_nat [OF ws] assms(1) by (simp add: of_nat_diff)
  have th: "to_double (real height - 1) = real height - 1"
    using to_double_of_nat [OF hs] assms(2) by (simp add: of_nat_diff)
  have fl: "\<lfloor>real n - 1\<rfloor> = int n - 1" for n
    by (metis floor_diff_one floor_of_nat)
  have A: "sampleEquirectangularBilinear_double imgData (Num a) (Num b) width height =
           (Num (channel imgData width 0 0 0), Num (channel imgData width 0 0 1),
            Num (channel imgData width 0 0 2))"
    by (subst sample_double_in_bounds(1) [OF assms(1-4) c0 _ _ _ _ refl refl refl refl refl refl refl refl])
       (simp_all add: to_double_0 bilinear_double_00 to_double_channel Math_round_channel del: Math_round.simps)
  have B: "sampleEquirectangularBilinear_double imgData (Num a') (Num b') width height =
           (Num (channel imgData width (int width - 1) (int height - 1) 0),
            Num (channel imgData width (int width - 1) (int height - 1) 1),
            Num (channel imgData width (int width - 1) (int height - 1) 2))"
    by (subst sample_double_in_bounds(1) [OF assms(1-4) c1 _ _ _ _ refl refl refl refl refl refl refl refl])
       (simp_all add: tw th fl to_double_0 bilinear_double_00 to_double_channel Math_round_channel
          del: Math_round.simps)
  from A B show ?thesis by simp
qed

section \<open>A flat image stays flat\<close>

lemma uniform_rgb_nth:
  assumes "uniform_rgb d r g b" "i * 4 + 3 < length d"
  shows "d ! (i * 4) = r \<and> d ! (i * 4 + 1) = g \<and> d ! (i * 4 + 2) = b"
  using assms
proof (induction d r g b arbitrary: i rule: uniform_rgb.induct)
  case (1 r' g' b' a rest r g b)
  show ?case
  proof (cases i)
    case 0
    with "1.prems" show ?thesis by simp
  next
    case (Suc j)
    have "rest ! (j * 4) = r \<and> rest ! (j * 4 + 1) = g \<and> rest ! (j * 4 + 2) = b"
      using "1.IH" [of j] "1.prems" Suc by simp
    then show ?thesis using Suc by simp
  qed
qed simp_all

lemma channel_uniform:
  assumes "length d = 4 * w * h" "uniform_rgb d r g b" "0 \<le> px" "px < int w" "0 \<le> py" "py < int h"
  shows "channel d w px py 0 = real (unat r)" "channel d w px py 1 = real (unat g)"
    "channel d w px py 2 = real (unat b)"
proof -
  define i where "i = nat (py * int w + px)"
  have nn: "0 \<le> py * int w + px" using assms(3,5) by simp
  have idx: "nat ((py * int w + px) * 4 + int k) = i * 4 + k" for k
    using nn by (simp add: i_def nat_add_distrib nat_mult_distrib)
  have "(py * int w + px) * 4 + 3 < int (4 * w * h)"
    using pixel_index_in_range(2) [OF assms(3-6), of 3] by simp
  then have "nat ((py * int w + px) * 4 + int 3) < 4 * w * h"
    by (simp only: of_nat_numeral nat_less_iff [OF add_nonneg_nonneg [OF mult_nonneg_nonneg [OF nn] zero_le_numeral]] zero_le_numeral)
  then have "i * 4 + 3 < length d"
    unfolding idx assms(1) .
  from uniform_rgb_nth [OF assms(2) this] idx [of 0] idx [of 1] idx [of 2]
  show "channel d w px py 0 = real (unat r)" "channel d w px py 1 = real (unat g)"
    "channel d w px py 2 = real (unat b)"
    by (simp_all add: channel_def)
qed

lemma toUint8Clamp_unat: "toUint8Clamp (Num (real (unat w))) = w" for w :: "8 word"
proof -
  have "unat w < 2 ^ 8" using unsigned_less [of w, where 'a = nat] by simp
  then have "unat w \<le> 255" by simp
  then have "unat (toUint8Clamp (Num (real (unat w)))) = unat w"
    by (rule unat_toUint8Clamp_byte)
  then show ?thesis by (simp only: word_unat_eq_iff)
qed

lemma tile_uniform:
  assumes len: "length faceData = size' * size' * 4"
    and px: "\<And>x y k. x < size' \<Longrightarrow> y < size' \<Longrightarrow> k < 4 \<Longrightarrow>
        faceData ! ((y * size' + x) * 4 + k) = [r, g, b, 255] ! k"
    and t: "tx < sourceWidth config size' tileX" "ty < sourceHeight config size' tileY" and k: "k < 4"
  shows "createTile_tileData faceData tileX tileY config size' ! ((ty * cfg_tileSize config + tx) * 4 + k) =
           [r, g, b, 255] ! k"
    and "createTile_part000_tileData faceData tileX tileY config size' ! ((ty * cfg_tileSize config + tx) * 4 + k) =
           [r, g, b, 255] ! k"
proof -
  note inface = source_pixel_in_face(1,2) [OF t]
  show "createTile_tileData faceData tileX tileY config size' ! ((ty * cfg_tileSize config + tx) * 4 + k) =
           [r, g, b, 255] ! k"
    unfolding createTile_tileData_copy [OF len t k] by (rule px [OF inface k])
  show "createTile_part000_tileData faceData tileX tileY config size' ! ((ty * cfg_tileSize config + tx) * 4 + k) =
           [r, g, b, 255] ! k"
    unfolding createTile_part000_tileData_copy [OF len t k] by (rule px [OF inface k])
qed

text \<open>
  In doubles the blend of four equal values \<open>c\<close> need not be \<open>c\<close>: each of its
  operations is rounded. A rounding moves its result by at most \<open>2 ^ -43\<close> here (the
  numbers are below 1024), so the interpolation of a value within \<open>\<delta>\<close> of \<open>c\<close> with
  itself stays within \<open>2 * \<delta> + 258 / 2 ^ 43\<close> of \<open>c\<close>, and the blend, two
  interpolations deep, within \<open>774 / 2 ^ 43\<close>. That is less than one half, which
  \<open>Math.round\<close> absorbs.
\<close>

lemma lerp_double_near:
  assumes t: "0 \<le> t" "t \<le> 1" and c: "0 \<le> c" "c \<le> 255"
    and d: "0 \<le> d" "\<bar>d - c\<bar> \<le> \<delta>" "\<delta> \<le> 1"
  shows "0 \<le> to_double (to_double (d * to_double (1 - t)) + to_double (d * t))"
    and "\<bar>to_double (to_double (d * to_double (1 - t)) + to_double (d * t)) - c\<bar> \<le> 2 * \<delta> + 258 / 2 ^ 43"
proof -
  define \<tau> :: real where "\<tau> = 1 / 2 ^ 43"
  have \<tau>: "0 \<le> \<tau>" "\<tau> \<le> 1" by (simp_all add: \<tau>_def)
  define a where "a = to_double (1 - t)"
  have a0: "0 \<le> a" unfolding a_def using t by (intro to_double_nonneg) simp
  have "to_double (1 - t) \<le> to_double 1" using t by (intro to_double_mono) simp_all
  then have a1: "a \<le> 1" by (simp add: a_def to_double_1)
  have ae: "\<bar>a - (1 - t)\<bar> \<le> \<tau>" unfolding a_def \<tau>_def using t by (intro to_double_error) simp
  have \<delta>0: "0 \<le> \<delta>" using d(2) by linarith
  have dd: "d \<le> 256" using d(2,3) c(2) by linarith
  define p where "p = to_double (d * a)"
  have da: "0 \<le> d * a" "d * a \<le> 256" using d(1) a0 a1 dd mult_mono [of d 256 a 1] by simp_all
  have p0: "0 \<le> p" unfolding p_def using da(1) by (rule to_double_nonneg)
  have pe: "\<bar>p - d * a\<bar> \<le> \<tau>" unfolding p_def \<tau>_def using da by (intro to_double_error) simp
  define q where "q = to_double (d * t)"
  have dt: "0 \<le> d * t" "d * t \<le> 256" using d(1) t dd mult_mono [of d 256 t 1] by simp_all
  have q0: "0 \<le> q" unfolding q_def using dt(1) by (rule to_double_nonneg)
  have qe: "\<bar>q - d * t\<bar> \<le> \<tau>" unfolding q_def \<tau>_def using dt by (intro to_double_error) simp
  have s0: "0 \<le> p + q" using p0 q0 by simp
  have s1: "p + q \<le> 1024" using pe qe da dt \<tau> by linarith
  define r where "r = to_double (p + q)"
  show "0 \<le> to_double (to_double (d * to_double (1 - t)) + to_double (d * t))"
    unfolding a_def [symmetric] p_def [symmetric] q_def [symmetric] using s0 by (rule to_double_nonneg)
  have re: "\<bar>r - (p + q)\<bar> \<le> \<tau>" unfolding r_def \<tau>_def using s0 s1 by (intro to_double_error) simp
  have m1: "\<bar>(d - c) * (a + t)\<bar> \<le> \<delta> * 2"
  proof -
    have "\<bar>(d - c) * (a + t)\<bar> = \<bar>d - c\<bar> * \<bar>a + t\<bar>" by (rule abs_mult)
    also have "\<dots> \<le> \<delta> * 2" using d(2) a0 a1 t \<delta>0 by (intro mult_mono) simp_all
    finally show ?thesis .
  qed
  have m2: "\<bar>c * (a + t - 1)\<bar> \<le> 255 * \<tau>"
  proof -
    have "\<bar>c * (a + t - 1)\<bar> = \<bar>c\<bar> * \<bar>a + t - 1\<bar>" by (rule abs_mult)
    also have "\<dots> \<le> 255 * \<tau>" using c ae \<tau> by (intro mult_mono) simp_all
    finally show ?thesis .
  qed
  have "d * a + d * t - c = (d - c) * (a + t) + c * (a + t - 1)" by (simp add: algebra_simps)
  then have "\<bar>d * a + d * t - c\<bar> \<le> \<delta> * 2 + 255 * \<tau>" using m1 m2 by linarith
  with pe qe re have "\<bar>r - c\<bar> \<le> 2 * \<delta> + 258 * \<tau>" by linarith
  then show "\<bar>to_double (to_double (d * to_double (1 - t)) + to_double (d * t)) - c\<bar> \<le> 2 * \<delta> + 258 / 2 ^ 43"
    by (simp add: r_def p_def q_def a_def \<tau>_def)
qed

lemma bilinear_double_const:
  assumes "0 \<le> fx" "fx \<le> 1" "0 \<le> fy" "fy \<le> 1" "0 \<le> c" "c \<le> 255"
  shows "0 \<le> bilinear_double fx fy c c c c" "\<bar>bilinear_double fx fy c c c c - c\<bar> \<le> 774 / 2 ^ 43"
proof -
  define i where "i = to_double (to_double (c * to_double (1 - fx)) + to_double (c * fx))"
  have c0: "\<bar>c - c\<bar> \<le> 0" by simp
  note l = lerp_double_near [OF assms(1,2,5,6) assms(5) c0]
  have i0: "0 \<le> i" unfolding i_def using l(1) by simp
  have ie: "\<bar>i - c\<bar> \<le> 258 / 2 ^ 43" unfolding i_def using l(2) by simp
  have small: "(258 :: real) / 2 ^ 43 \<le> 1" by simp
  note m = lerp_double_near [OF assms(3,4,5,6) i0 ie small]
  have b: "bilinear_double fx fy c c c c = to_double (to_double (i * to_double (1 - fy)) + to_double (i * fy))"
    by (simp add: bilinear_double_def i_def)
  show "0 \<le> bilinear_double fx fy c c c c" unfolding b by (rule m(1))
  show "\<bar>bilinear_double fx fy c c c c - c\<bar> \<le> 774 / 2 ^ 43" unfolding b using m(2) by simp
qed

lemma Math_round_absorbs:
  assumes "0 \<le> r" "\<bar>r - real n\<bar> < 1 / 2"
  shows "Math_round (Num r) = Num (real n)"
proof -
  have "\<lfloor>r + 1 / 2\<rfloor> = int n" using assms(2) by linarith
  then show ?thesis using assms(1) by simp
qed

lemma sample_double_uniform:
  assumes "1 \<le> width" "1 \<le> height" "length d = 4 * width * height" "length d \<le> 2 ^ 53"
    and "uniform_rgb d r g b" and "\<not> is_NaN u0" "\<not> is_NaN v0"
  shows "sampleEquirectangularBilinear_double d u0 v0 width height =
     (Num (real (unat r)), Num (real (unat g)), Num (real (unat b)))"
proof -
  obtain u where u: "clamp01 u0 = Num u" "0 \<le> u" "u \<le> 1"
    using clamp01_Num [OF assms(6)] by blast
  obtain v where v: "clamp01 v0 = Num v" "0 \<le> v" "v \<le> 1"
    using clamp01_Num [OF assms(7)] by blast
  note s = sample_double_in_bounds [OF assms(1-4) u(1) v(1) u(2,3) v(2,3) refl refl refl refl refl refl refl refl]
  have c: "channel d width px py 0 = real (unat r)" "channel d width px py 1 = real (unat g)"
    "channel d width px py 2 = real (unat b)"
    if "0 \<le> px \<and> px < int width" "0 \<le> py \<and> py < int height" for px py
    using channel_uniform [OF assms(3,5), of px py] that by simp_all
  have round: "Math_round (Num (bilinear_double fx fy (real (unat w)) (real (unat w)) (real (unat w)) (real (unat w)))) =
      Num (real (unat w))"
    if f: "0 \<le> fx \<and> fx \<le> 1 \<and> 0 \<le> fy \<and> fy \<le> 1" for fx fy and w :: "8 word"
  proof -
    have "unat w < 2 ^ 8" using unsigned_less [of w, where 'a = nat] by simp
    then have "unat w \<le> 255" by simp
    then have "real (unat w) \<le> real 255" by (simp only: of_nat_le_iff)
    then have w: "0 \<le> real (unat w)" "real (unat w) \<le> 255" by (simp_all del: of_nat_unat)
    from f have f': "0 \<le> fx" "fx \<le> 1" "0 \<le> fy" "fy \<le> 1" by simp_all
    note k = bilinear_double_const [OF f' w]
    have "(774 :: real) / 2 ^ 43 < 1 / 2" by simp
    with k(2) have "\<bar>bilinear_double fx fy (real (unat w)) (real (unat w)) (real (unat w)) (real (unat w)) -
        real (unat w)\<bar> < 1 / 2" by linarith
    from Math_round_absorbs [OF k(1) this] show ?thesis .
  qed
  show ?thesis
    unfolding s(1)
    using s(2,3) by (simp add: c round [OF s(4)] del: Math_round.simps of_nat_unat)
qed

lemma generateCubeFace_double_loops:
  assumes "0 < size'"
  shows "generateCubeFace_double img face size' =
     Inr (fold (\<lambda>y d. fold (\<lambda>x d. d[(y * size' + x) * 4 := toUint8Clamp (fst (facePixel_double img face size' x y)),
            (y * size' + x) * 4 + 1 := toUint8Clamp (fst (snd (facePixel_double img face size' x y))),
            (y * size' + x) * 4 + 2 := toUint8Clamp (snd (snd (facePixel_double img face size' x y))),
            (y * size' + x) * 4 + 3 := 255]) [0..<size'] d) [0..<size'] (replicate (size' * size' * 4) 0))"
  using assms unfolding generateCubeFace_double_def facePixel_double_def Let_def split_def
  by simp

lemma generateCubeFace_double_nth:
  assumes "0 < size'" "x < size'" "y < size'" "k < 4"
  shows "\<exists>faceData. generateCubeFace_double img face size' = Inr faceData \<and>
     length faceData = size' * size' * 4 \<and>
     faceData ! ((y * size' + x) * 4 + k) =
       [toUint8Clamp (fst (facePixel_double img face size' x y)),
        toUint8Clamp (fst (snd (facePixel_double img face size' x y))),
        toUint8Clamp (snd (snd (facePixel_double img face size' x y))), 255] ! k"
proof -
  have fits: "size' * size' * 4 \<le> length (replicate (size' * size' * 4) (0 :: 8 word))" by simp
  show ?thesis
    unfolding generateCubeFace_double_loops [OF assms(1)]
    using grid_loop_nth [OF order_refl fits assms(2,3,4)] grid_loop_length [OF order_refl fits]
    by simp
qed

lemma facePixel_double_uniform:
  assumes "valid_image img" "length (img_data img) \<le> 2 ^ 53"
    and "uniform_rgb (img_data img) r g b" "0 \<le> face" "face \<le> 5"
  shows "facePixel_double img face size' x y = (Num (real (unat r)), Num (real (unat g)), Num (real (unat b)))"
proof -
  obtain eqU eqV where f: "faceUVToEquirectangular face (real x / real size') (real y / real size') = (Num eqU, Num eqV)"
    using faceUV_not_NaN [OF assms(4,5)] by blast
  from assms(1) have v: "1 \<le> img_width img" "1 \<le> img_height img"
    "length (img_data img) = 4 * img_width img * img_height img"
    by (simp_all add: valid_image_def)
  show ?thesis
    unfolding facePixel_double_def f
    using sample_double_uniform [OF v assms(2,3), of "Num eqU" "Num eqV"] by simp
qed

lemma generateCubeFace_double_uniform:
  assumes "valid_image img" "length (img_data img) \<le> 2 ^ 53"
    and "uniform_rgb (img_data img) r g b" "0 \<le> face" "face \<le> 5" "0 < size'"
  shows "\<exists>faceData. generateCubeFace_double img face size' = Inr faceData \<and>
     length faceData = size' * size' * 4 \<and>
     (\<forall>x y k. x < size' \<and> y < size' \<and> k < 4 \<longrightarrow>
        faceData ! ((y * size' + x) * 4 + k) = [r, g, b, 255] ! k)"
proof -
  obtain faceData where fd: "generateCubeFace_double img face size' = Inr faceData"
    "length faceData = size' * size' * 4"
    using generateCubeFace_double_nth [OF assms(6) assms(6) assms(6), of 0 img face] by auto
  have "faceData ! ((y * size' + x) * 4 + k) = [r, g, b, 255] ! k"
    if "x < size'" "y < size'" "k < 4" for x y k
    using generateCubeFace_double_nth [OF assms(6) that, of img face] fd(1)
    unfolding facePixel_double_uniform [OF assms(1-5)]
    by (auto simp: toUint8Clamp_unat simp del: toUint8Clamp.simps of_nat_unat)
  with fd show ?thesis by blast
qed

text \<open>
  Claim C9, in double arithmetic. The blend of four equal channel values stays within
  \<open>774 / 2 ^ 43\<close> of the value, and \<open>Math.round\<close> takes it back to the value. So on a
  valid source image whose pixels all have the same red, green and blue values (the
  flat 4 by 2 image of \<open>(128, 64, 32)\<close> is one), the sampler returns exactly these
  values at all coordinates that are numbers; every pixel of every generated face, for
  the faces 0 to 5 and any face size (so at every level), has exactly these values and
  the alpha value 255; and so has every pixel of the copied region of every tile cut
  from the face, with either version of \<open>createTile\<close>.
\<close>

theorem constant_image_invariant:
  assumes "valid_image img" "length (img_data img) \<le> 2 ^ 53"
    and "uniform_rgb (img_data img) r g b" "0 \<le> face" "face \<le> 5" "0 < size'"
  shows
    "(\<forall>fx fy c. 0 \<le> fx \<and> fx \<le> 1 \<and> 0 \<le> fy \<and> fy \<le> 1 \<and> 0 \<le> c \<and> c \<le> 255 \<longrightarrow>
        \<bar>bilinear_double fx fy c c c c - c\<bar> \<le> 774 / 2 ^ 43) \<and>
     (\<forall>u0 v0. \<not> is_NaN u0 \<and> \<not> is_NaN v0 \<longrightarrow>
        sampleEquirectangularBilinear_double (img_data img) u0 v0 (img_width img) (img_height img) =
          (Num (real (unat r)), Num (real (unat g)), Num (real (unat b)))) \<and>
     (\<exists>faceData. generateCubeFace_double img face size' = Inr faceData \<and>
        (\<forall>x y. x < size' \<and> y < size' \<longrightarrow>
           faceData ! ((y * size' + x) * 4) = r \<and> faceData ! ((y * size' + x) * 4 + 1) = g \<and>
           faceData ! ((y * size' + x) * 4 + 2) = b \<and> faceData ! ((y * size' + x) * 4 + 3) = 255) \<and>
        (\<forall>config row col tx ty.
           tx < min (cfg_tileSize config) (size' - col * cfg_tileSize config) \<and>
           ty < min (cfg_tileSize config) (size' - row * cfg_tileSize config) \<longrightarrow>
           createTile_tileData faceData col row config size' ! ((ty * cfg_tileSize config + tx) * 4) = r \<and>
           createTile_tileData faceData col row config size' ! ((ty * cfg_tileSize config + tx) * 4 + 1) = g \<and>
           createTile_tileData faceData col row config size' ! ((ty * cfg_tileSize config + tx) * 4 + 2) = b \<and>
           createTile_tileData faceData col row config size' ! ((ty * cfg_tileSize config + tx) * 4 + 3) = 255 \<and>
           createTile_part000_tileData faceData col row config size' ! ((ty * cfg_tileSize config + tx) * 4) = r \<and>
           createTile_part000_tileData faceData col row config size' ! ((ty * cfg_tileSize config + tx) * 4 + 1) = g \<and>
           createTile_part000_tileData faceData col row config size' ! ((ty * cfg_tileSize config + tx) * 4 + 2) = b \<and>
           createTile_part000_tileData faceData col row config size' ! ((ty * cfg_tileSize config + tx) * 4 + 3) = 255))"
proof -
  have blend: "\<bar>bilinear_double fx fy c c c c - c\<bar> \<le> 774 / 2 ^ 43"
    if "0 \<le> fx \<and> fx \<le> 1 \<and> 0 \<le> fy \<and> fy \<le> 1 \<and> 0 \<le> c \<and> c \<le> 255" for fx fy c
    using that by (intro bilinear_double_const(2)) simp_all
  from assms(1) have v: "1 \<le> img_width img" "1 \<le> img_height img"
    "length (img_data img) = 4 * img_width img * img_height img"
    by (simp_all add: valid_image_def)
  have sample: "sampleEquirectangularBilinear_double (img_data img) u0 v0 (img_width img) (img_height img) =
          (Num (real (unat r)), Num (real (unat g)), Num (real (unat b)))"
    if "\<not> is_NaN u0 \<and> \<not> is_NaN v0" for u0 v0
    using that by (intro sample_double_uniform [OF v assms(2,3)]) simp_all
  obtain faceData where fd: "generateCubeFace_double img face size' = Inr faceData"
    and len: "length faceData = size' * size' * 4"
    and px: "\<And>x y k. x < size' \<Longrightarrow> y < size' \<Longrightarrow> k < 4 \<Longrightarrow>
        faceData ! ((y * size' + x) * 4 + k) = [r, g, b, 255] ! k"
    using generateCubeFace_double_uniform [OF assms] by blast
  have face: "faceData ! ((y * size' + x) * 4) = r \<and> faceData ! ((y * size' + x) * 4 + 1) = g \<and>
        faceData ! ((y * size' + x) * 4 + 2) = b \<and> faceData ! ((y * size' + x) * 4 + 3) = 255"
    if "x < size' \<and> y < size'" for x y
    using px [of x y 0] px [of x y 1] px [of x y 2] px [of x y 3] that by simp
  have tile: "createTile_tileData faceData col row config size' ! ((ty * cfg_tileSize config + tx) * 4) = r \<and>
        createTile_tileData faceData col row config size' ! ((ty * cfg_tileSize config + tx) * 4 + 1) = g \<and>
        createTile_tileData faceData col row config size' ! ((ty * cfg_tileSize config + tx) * 4 + 2) = b \<and>
        createTile_tileData faceData col row config size' ! ((ty * cfg_tileSize config + tx) * 4 + 3) = 255 \<and>
        createTile_part000_tileData faceData col row config size' ! ((ty * cfg_tileSize config + tx) * 4) = r \<and>
        createTile_part000_tileData faceData col row config size' ! ((ty * cfg_tileSize config + tx) * 4 + 1) = g \<and>
        createTile_part000_tileData faceData col row config size' ! ((ty * cfg_tileSize config + tx) * 4 + 2) = b \<and>
        createTile_part000_tileData faceData col row config size' ! ((ty * cfg_tileSize config + tx) * 4 + 3) = 255"
    if t: "tx < min (cfg_tileSize config) (size' - col * cfg_tileSize config) \<and>
           ty < min (cfg_tileSize config) (size' - row * cfg_tileSize config)"
    for config row col tx ty
  proof -
    from t have t1: "tx < sourceWidth config size' col" and t2: "ty < sourceHeight config size' row"
      by (simp_all add: sourceWidth_def sourceHeight_def sourceX_def sourceY_def)
    note u = tile_uniform [OF len px t1 t2]
    show ?thesis
      using u(1) [of 0] u(1) [of 1] u(1) [of 2] u(1) [of 3] u(2) [of 0] u(2) [of 1] u(2) [of 2] u(2) [of 3]
      by simp
  qed
  have ex: "\<exists>faceData. generateCubeFace_double img face size' = Inr faceData \<and>
        (\<forall>x y. x < size' \<and> y < size' \<longrightarrow>
           faceData ! ((y * size' + x) * 4) = r \<and> faceData ! ((y * size' + x) * 4 + 1) = g \<and>
           faceData ! ((y * size' + x) * 4 + 2) = b \<and> faceData ! ((y * size' + x) * 4 + 3) = 255) \<and>
        (\<forall>config row col tx ty.
           tx < min (cfg_tileSize config) (size' - col * cfg_tileSize config) \<and>
           ty < min (cfg_tileSize config) (size' - row * cfg_tileSize config) \<longrightarrow>
           createTile_tileData faceData col row config size' ! ((ty * cfg_tileSize config + tx) * 4) = r \<and>
           createTile_tileData faceData col row config size' ! ((ty * cfg_tileSize config + tx) * 4 + 1) = g \<and>
           createTile_tileData faceData col row config size' ! ((ty * cfg_tileSize config + tx) * 4 + 2) = b \<and>
           createTile_tileData faceData col row config size' ! ((ty * cfg_tileSize config + tx) * 4 + 3) = 255 \<and>
           createTile_part000_tileData faceData col row config size' ! ((ty * cfg_tileSize config + tx) * 4) = r \<and>
           createTile_part000_tileData faceData col row config size' ! ((ty * cfg_tileSize config + tx) * 4 + 1) = g \<and>
           createTile_part000_tileData faceData col row config size' ! ((ty * cfg_tileSize config + tx) * 4 + 2) = b \<and>
           createTile_part000_tileData faceData col row config size' ! ((ty * cfg_tileSize config + tx) * 4 + 3) = 255)"
    using fd face tile by blast
  show ?thesis
    apply (intro conjI)
      apply (intro allI impI, erule blend)
     apply (intro allI impI, erule sample)
    apply (rule ex)
    done
qed

theorem constant_image_invariant_witness:
  "valid_image flat4x2 \<and> length (img_data flat4x2) \<le> 2 ^ 53 \<and>
   uniform_rgb (img_data flat4x2) 128 64 32 \<and>
   (0::int) \<le> 2 \<and> (2::int) \<le> 5 \<and> (0::nat) < 3 \<and>
   sampleEquirectangularBilinear_double (img_data flat4x2) (Num (3 / 10)) (Num (7 / 10)) 4 2 =
     (Num 128, Num 64, Num 32) \<and>
   (\<exists>faceData. generateCubeFace_double flat4x2 2 3 = Inr faceData \<and>
      faceData ! ((1 * 3 + 2) * 4) = 128 \<and> faceData ! ((1 * 3 + 2) * 4 + 1) = 64 \<and>
      faceData ! ((1 * 3 + 2) * 4 + 2) = 32 \<and> faceData ! ((1 * 3 + 2) * 4 + 3) = 255 \<and>
      createTile_tileData faceData 1 1 cfg_3_2 3 ! ((0 * cfg_tileSize cfg_3_2 + 0) * 4) = 128 \<and>
      createTile_tileData faceData 1 1 cfg_3_2 3 ! ((0 * cfg_tileSize cfg_3_2 + 0) * 4 + 1) = 64 \<and>
      createTile_tileData faceData 1 1 cfg_3_2 3 ! ((0 * cfg_tileSize cfg_3_2 + 0) * 4 + 2) = 32)"
proof -
  have v: "valid_image flat4x2" by (simp add: valid_image_def flat4x2_def)
  have l: "length (img_data flat4x2) \<le> 2 ^ 53" by (simp add: flat4x2_def)
  have u: "uniform_rgb (img_data flat4x2) 128 64 32" by (simp add: flat4x2_def)
  have f: "(0::int) \<le> 2" "(2::int) \<le> 5" "(0::nat) < 3" by simp_all
  note T = constant_image_invariant [OF v l u f]
  from T [THEN conjunct2, THEN conjunct1, rule_format, of "Num (3 / 10)" "Num (7 / 10)"]
  have s: "sampleEquirectangularBilinear_double (img_data flat4x2) (Num (3 / 10)) (Num (7 / 10)) 4 2 =
     (Num 128, Num 64, Num 32)"
    by (simp add: flat4x2_def)
  from T [THEN conjunct2, THEN conjunct2]
  obtain faceData where fd: "generateCubeFace_double flat4x2 2 3 = Inr faceData"
    and face: "\<And>x y. x < 3 \<and> y < 3 \<Longrightarrow>
        faceData ! ((y * 3 + x) * 4) = 128 \<and> faceData ! ((y * 3 + x) * 4 + 1) = 64 \<and>
        faceData ! ((y * 3 + x) * 4 + 2) = 32 \<and> faceData ! ((y * 3 + x) * 4 + 3) = 255"
    and tile: "\<And>config row col tx ty.
        tx < min (cfg_tileSize config) (3 - col * cfg_tileSize config) \<and>
        ty < min (cfg_tileSize config) (3 - row * cfg_tileSize config) \<Longrightarrow>
        createTile_tileData faceData col row config 3 ! ((ty * cfg_tileSize config + tx) * 4) = 128 \<and>
        createTile_tileData faceData col row config 3 ! ((ty * cfg_tileSize config + tx) * 4 + 1) = 64 \<and>
        createTile_tileData faceData col row config 3 ! ((ty * cfg_tileSize config + tx) * 4 + 2) = 32"
    by blast
  have w: "0 < min (cfg_tileSize cfg_3_2) (3 - 1 * cfg_tileSize cfg_3_2) \<and>
           0 < min (cfg_tileSize cfg_3_2) (3 - 1 * cfg_tileSize cfg_3_2)"
    by (simp add: cfg_3_2_def)
  have "(2::nat) < 3 \<and> (1::nat) < 3" by simp
  from face [OF this] tile [OF w] fd
  have "\<exists>faceData. generateCubeFace_double flat4x2 2 3 = Inr faceData \<and>
      faceData ! ((1 * 3 + 2) * 4) = 128 \<and> faceData ! ((1 * 3 + 2) * 4 + 1) = 64 \<and>
      faceData ! ((1 * 3 + 2) * 4 + 2) = 32 \<and> faceData ! ((1 * 3 + 2) * 4 + 3) = 255 \<and>
      createTile_tileData faceData 1 1 cfg_3_2 3 ! ((0 * cfg_tileSize cfg_3_2 + 0) * 4) = 128 \<and>
      createTile_tileData faceData 1 1 cfg_3_2 3 ! ((0 * cfg_tileSize cfg_3_2 + 0) * 4 + 1) = 64 \<and>
      createTile_tileData faceData 1 1 cfg_3_2 3 ! ((0 * cfg_tileSize cfg_3_2 + 0) * 4 + 2) = 32"
    by blast
  with v l u f s show ?thesis by blast
qed

section \<open>The counts of a conversion\<close>

lemma tilesPerSide_table: "map tilesPerSide tileConfigs = [1, 1, 2, 4]"
  by (simp add: tileConfigs_def tilesPerSide_def)

lemma tileConfigs_nth:
  "tilesPerSide (tileConfigs ! 0) = 1" "tilesPerSide (tileConfigs ! 1) = 1"
  "tilesPerSide (tileConfigs ! 2) = 2" "tilesPerSide (tileConfigs ! 3) = 4"
  "tilesPerSide (tileConfigs ! Suc 0) = 1"
  by (simp_all add: tileConfigs_def tilesPerSide_def)

lemma levels: "nat (int (length tileConfigs) - 1 + 1) = 4"
  by (simp add: tileConfigs_def)

lemma totalTiles_value:
  "fold (\<lambda>z totalTiles. totalTiles + 6 * tilesPerSide (tileConfigs ! z) * tilesPerSide (tileConfigs ! z))
     [0..<nat (int (length tileConfigs) - 1 + 1)] 0 = 132"
proof -
  have "[0..<4] = [0, 1, 2, 3 :: nat]" by (simp add: upt_rec)
  then show ?thesis
    unfolding levels by (simp add: tileConfigs_nth)
qed

lemma totalTiles_sum: "(\<Sum>config\<leftarrow>tileConfigs. 6 * (tilesPerSide config)\<^sup>2) = 132"
proof -
  have "(\<Sum>config\<leftarrow>tileConfigs. 6 * (tilesPerSide config)\<^sup>2) =
      (\<Sum>t\<leftarrow>map tilesPerSide tileConfigs. 6 * t\<^sup>2)"
    by (simp add: comp_def)
  then show ?thesis unfolding tilesPerSide_table by simp
qed

lemma processImage_with_counts:
  assumes "processImage_with mkTile img = Inr r"
  shows "totalTiles r = 132 \<and> zoomLevels r = 4 \<and> maxZoom r = 3"
proof -
  have len: "int (length tileConfigs) - 1 = 3" by (simp add: tileConfigs_def)
  from assms show ?thesis
    unfolding processImage_with_def Let_def totalTiles_value
    by (auto simp only: len split: sum.splits) simp_all
qed

lemma tileConfigs_positive:
  assumes "z < length tileConfigs"
  shows "0 < cfg_size (tileConfigs ! z) \<and> 0 < cfg_tileSize (tileConfigs ! z)"
proof -
  have "\<forall>config \<in> set tileConfigs. 0 < cfg_size config \<and> 0 < cfg_tileSize config"
    by (simp add: tileConfigs_def)
  with assms show ?thesis by (meson nth_mem)
qed

lemma generateCubeFace_total: "0 < size' \<Longrightarrow> \<exists>faceData. generateCubeFace img face size' = Inr faceData"
  by (simp add: generateCubeFace_def Let_def)

lemma processImage_with_total:
  assumes "\<And>faceImageData x y config faceSize.
      0 < cfg_tileSize config \<Longrightarrow> \<exists>b. mkTile faceImageData x y config faceSize = Inr b"
  shows "\<exists>r. processImage_with mkTile img = Inr r"
proof -
  have "\<exists>tiles. for_each (\<lambda>z.
             for_each (\<lambda>face.
                  case generateCubeFace img (int face) (cfg_size (tileConfigs ! z)) of
                    Inl e \<Rightarrow> Inl e
                  | Inr faceImageData \<Rightarrow>
                      sliceFace mkTile faceImageData (tileConfigs ! z) (cfg_size (tileConfigs ! z)) z (faceNames ! face))
                  [0..<6])
             [0..<nat (int (length tileConfigs) - 1 + 1)] = Inr tiles"
  proof (intro for_each_total)
    fix z face
    assume "z \<in> set [0..<nat (int (length tileConfigs) - 1 + 1)]"
    then have "z < length tileConfigs" by simp
    from tileConfigs_positive [OF this]
    have pos: "0 < cfg_size (tileConfigs ! z)" "0 < cfg_tileSize (tileConfigs ! z)" by simp_all
    obtain faceData where fd: "generateCubeFace img (int face) (cfg_size (tileConfigs ! z)) = Inr faceData"
      using generateCubeFace_total [OF pos(1)] by blast
    obtain rows where "sliceFace mkTile faceData (tileConfigs ! z) (cfg_size (tileConfigs ! z)) z (faceNames ! face) = Inr rows"
      using sliceFace_total [of mkTile faceData "tileConfigs ! z"] assms [OF pos(2)] by blast
    with fd show "\<exists>y. (case generateCubeFace img (int face) (cfg_size (tileConfigs ! z)) of
                    Inl e \<Rightarrow> Inl e
                  | Inr faceImageData \<Rightarrow>
                      sliceFace mkTile faceImageData (tileConfigs ! z) (cfg_size (tileConfigs ! z)) z (faceNames ! face)) = Inr y"
      by simp
  qed
  then obtain tiles where "for_each (\<lambda>z.
             for_each (\<lambda>face.
                  case generateCubeFace img (int face) (cfg_size (tileConfigs ! z)) of
                    Inl e \<Rightarrow> Inl e
                  | Inr faceImageData \<Rightarrow>
                      sliceFace mkTile faceImageData (tileConfigs ! z) (cfg_size (tileConfigs ! z)) z (faceNames ! face))
                  [0..<6])
             [0..<nat (int (length tileConfigs) - 1 + 1)] = Inr tiles" by blast
  then show ?thesis
    unfolding processImage_with_def Let_def by simp
qed

text \<open>
  Claim C1. For a valid source image, a conversion that succeeds (with either server
  converter) reports \<open>totalTiles = 132\<close>, \<open>zoomLevels = 4\<close> and \<open>maxZoom = 3\<close>; the four
  levels are 256/256, 512/512, 1024/512 and 2048/512, with 1, 1, 2 and 4 tiles a side,
  and 132 is the sum of \<open>6 * ceil (faceSize / tileSize)\<^sup>2\<close> over them.
\<close>

theorem conversion_counts:
  assumes "valid_image img"
    and "processImage convertToBlob img = Inr r \<or> processImage_part000 convertToBlob img = Inr r"
  shows "totalTiles r = 132 \<and> zoomLevels r = 4 \<and> maxZoom r = 3 \<and>
     map (\<lambda>config. (cfg_size config, cfg_tileSize config)) tileConfigs =
       [(256, 256), (512, 512), (1024, 512), (2048, 512)] \<and>
     map tilesPerSide tileConfigs = [1, 1, 2, 4] \<and>
     (\<Sum>config\<leftarrow>tileConfigs. 6 * (tilesPerSide config)\<^sup>2) = 132"
proof -
  from assms(2) have "totalTiles r = 132 \<and> zoomLevels r = 4 \<and> maxZoom r = 3"
    unfolding processImage_def processImage_part000_def
    by (elim disjE) (rule processImage_with_counts, assumption)+
  moreover have "map (\<lambda>config. (cfg_size config, cfg_tileSize config)) tileConfigs =
       [(256, 256), (512, 512), (1024, 512), (2048, 512)]"
    by (simp add: tileConfigs_def)
  ultimately show ?thesis using tilesPerSide_table totalTiles_sum by simp
qed

theorem conversion_counts_witness:
  "valid_image flat4x2 \<and>
   (\<exists>r. processImage keep_pixels flat4x2 = Inr r \<and>
      totalTiles r = 132 \<and> zoomLevels r = 4 \<and> maxZoom r = 3)"
proof -
  have v: "valid_image flat4x2" by (simp add: valid_image_def flat4x2_def)
  obtain r where r: "processImage keep_pixels flat4x2 = Inr r"
    unfolding processImage_def
    using processImage_with_total [of "createTile keep_pixels" flat4x2]
      createTile_total [of _ keep_pixels]
    by (auto simp: keep_pixels_def)
  then have "processImage keep_pixels flat4x2 = Inr r \<or> processImage_part000 keep_pixels flat4x2 = Inr r"
    by simp
  from conversion_counts [OF v this] r v show ?thesis by blast
qed

section \<open>Encoding failures\<close>

lemma upt_first: "0 < n \<Longrightarrow> [0..<n] = 0 # [Suc 0..<n]"
  by (simp add: upt_conv_Cons)

lemma sliceFace_first_fails:
  assumes "0 < tilesPerSide config" "mkTile faceImageData 0 0 config faceSize = Inl e"
  shows "sliceFace mkTile faceImageData config faceSize z faceName = Inl e"
  unfolding sliceFace_def upt_first [OF assms(1)] using assms(2) by simp

lemma processImage_with_first_fails:
  assumes "\<And>faceImageData. mkTile faceImageData 0 0 (tileConfigs ! 0) (cfg_size (tileConfigs ! 0)) = Inl e"
  shows "processImage_with mkTile img = Inl e"
proof -
  have pos: "0 < cfg_size (tileConfigs ! 0)" "0 < tilesPerSide (tileConfigs ! 0)"
    by (simp_all add: tileConfigs_def tilesPerSide_def)
  obtain faceData where fd: "generateCubeFace img (int 0) (cfg_size (tileConfigs ! 0)) = Inr faceData"
    using generateCubeFace_total [OF pos(1)] by blast
  have face: "(case generateCubeFace img (int 0) (cfg_size (tileConfigs ! 0)) of
                    Inl e \<Rightarrow> Inl e
                  | Inr faceImageData \<Rightarrow>
                      sliceFace mkTile faceImageData (tileConfigs ! 0) (cfg_size (tileConfigs ! 0)) 0 (faceNames ! 0)) = Inl e"
    unfolding fd
    using sliceFace_first_fails [of "tileConfigs ! 0" mkTile faceData "cfg_size (tileConfigs ! 0)" e, OF pos(2) assms]
    by simp
  have six: "[0..<6] = (0::nat) # [Suc 0..<6]" by (rule upt_first) simp
  have lv: "[0..<nat (int (length tileConfigs) - 1 + 1)] = 0 # [Suc 0..<nat (int (length tileConfigs) - 1 + 1)]"
    by (rule upt_first) (simp only: levels zero_less_numeral)
  show ?thesis
    unfolding processImage_with_def Let_def lv
    by (simp only: for_each.simps six face sum.case)
qed

lemma createTile_part000_no_retry:
  assumes "0 < cfg_tileSize config"
    and "convertToBlob (createTile_part000_tileData faceImageData x y config faceSize) 1 = None"
  shows "createTile_part000 convertToBlob faceImageData x y config faceSize = Inl EncodingError"
  using assms by (simp add: createTile_part000_def Let_def)

lemma createTile_attempts:
  assumes "0 < cfg_tileSize config"
  shows "createTile convertToBlob faceImageData x y config faceSize =
     (case convertToBlob (createTile_tileData faceImageData x y config faceSize) 1 of
        Some blob \<Rightarrow> Inr blob
      | None \<Rightarrow>
         (case convertToBlob (createTile_tileData faceImageData x y config faceSize) (9 / 10) of
            Some blob \<Rightarrow> Inr blob
          | None \<Rightarrow> Inl EncodingError))"
  using assms by (simp add: createTile_def Let_def)

lemma length_concat_concat:
  "length (concat (concat xs)) = sum_list (map (\<lambda>r. length (concat r)) xs)"
  by (induction xs) simp_all

lemma sum_list_map_concat:
  "sum_list (map f (concat xss)) = sum_list (map (\<lambda>xs. sum_list (map f xs)) xss)"
  for f :: "'a \<Rightarrow> nat"
  by (induction xss) simp_all

lemma list_all2_map_eq:
  assumes "list_all2 (\<lambda>x y. f y = g x) xs ys"
  shows "map f ys = map g xs"
  using assms by (induction xs ys rule: list_all2_induct) simp_all

lemma face_rows_count:
  assumes "for_each (\<lambda>face.
      case generateCubeFace img (int face) S of
        Inl e \<Rightarrow> Inl e
      | Inr faceImageData \<Rightarrow> sliceFace mkTile faceImageData config S z (faceNames ! face))
      [0..<6] = Inr t"
  shows "length (concat (concat t)) = 6 * (tilesPerSide config * tilesPerSide config)"
proof -
  from assms have "list_all2 (\<lambda>face rows.
      (case generateCubeFace img (int face) S of
        Inl e \<Rightarrow> Inl e
      | Inr faceImageData \<Rightarrow> sliceFace mkTile faceImageData config S z (faceNames ! face)) = Inr rows)
      [0..<6] t"
    by (simp only: for_each_Inr_iff)
  then have "list_all2 (\<lambda>face rows. length (concat rows) = tilesPerSide config * tilesPerSide config) [0..<6] t"
    by (rule list_all2_mono) (auto split: sum.splits dest: sliceFace_count)
  then have "map (\<lambda>rows. length (concat rows)) t =
      map (\<lambda>face. tilesPerSide config * tilesPerSide config) [0..<6]"
    by (rule list_all2_map_eq)
  then show ?thesis
    by (simp add: length_concat_concat map_replicate_const sum_list_replicate)
qed

lemma processImage_with_no_tile_omitted:
  assumes "processImage_with mkTile img = Inr r"
  shows "length (zipBuffer r) = totalTiles r"
proof -
  from assms obtain tiles where
    t: "for_each (\<lambda>z.
             for_each (\<lambda>face.
                  case generateCubeFace img (int face) (cfg_size (tileConfigs ! z)) of
                    Inl e \<Rightarrow> Inl e
                  | Inr faceImageData \<Rightarrow>
                      sliceFace mkTile faceImageData (tileConfigs ! z) (cfg_size (tileConfigs ! z)) z (faceNames ! face))
                  [0..<6])
             [0..<nat (int (length tileConfigs) - 1 + 1)] = Inr tiles"
    and z: "zipBuffer r = concat (concat (concat tiles))"
    unfolding processImage_with_def Let_def
    by (auto split: sum.splits)
  from t have "list_all2 (\<lambda>z t. for_each (\<lambda>face.
                  case generateCubeFace img (int face) (cfg_size (tileConfigs ! z)) of
                    Inl e \<Rightarrow> Inl e
                  | Inr faceImageData \<Rightarrow>
                      sliceFace mkTile faceImageData (tileConfigs ! z) (cfg_size (tileConfigs ! z)) z (faceNames ! face))
                  [0..<6] = Inr t) [0..<4] tiles"
    by (simp only: for_each_Inr_iff levels)
  then have "list_all2 (\<lambda>z t. length (concat (concat t)) =
      6 * (tilesPerSide (tileConfigs ! z) * tilesPerSide (tileConfigs ! z))) [0..<4] tiles"
    by (rule list_all2_mono) (rule face_rows_count)
  then have m: "map (\<lambda>t. length (concat (concat t))) tiles =
      map (\<lambda>z. 6 * (tilesPerSide (tileConfigs ! z) * tilesPerSide (tileConfigs ! z))) [0..<4]"
    by (rule list_all2_map_eq)
  have four: "[0..<4] = [0, 1, 2, 3 :: nat]" by (simp add: upt_rec)
  have "length (concat (concat (concat tiles))) =
      sum_list (map (\<lambda>rows. length (concat rows)) (concat tiles))"
    by (rule length_concat_concat)
  also have "\<dots> = sum_list (map (\<lambda>t. sum_list (map (\<lambda>rows. length (concat rows)) t)) tiles)"
    by (rule sum_list_map_concat)
  also have "\<dots> = sum_list (map (\<lambda>t. length (concat (concat t))) tiles)"
    by (simp add: length_concat_concat)
  also have "\<dots> = 132"
    unfolding m four by (simp add: tileConfigs_nth)
  finally show ?thesis
    using processImage_with_counts [OF assms] z by simp
qed

lemma processImage_with_tile_failure_fatal:
  assumes "z < length tileConfigs" "face < 6"
    and "generateCubeFace img (int face) (cfg_size (tileConfigs ! z)) = Inr faceImageData"
    and "y < tilesPerSide (tileConfigs ! z)" "x < tilesPerSide (tileConfigs ! z)"
    and "mkTile faceImageData x y (tileConfigs ! z) (cfg_size (tileConfigs ! z)) = Inl e"
  shows "\<exists>e'. processImage_with mkTile img = Inl e'"
proof -
  have "\<exists>e'. for_each (\<lambda>x.
         case mkTile faceImageData x y (tileConfigs ! z) (cfg_size (tileConfigs ! z)) of
           Inl e \<Rightarrow> Inl e
         | Inr tileBuffer \<Rightarrow> Inr ((z, faceNames ! face, y, x), tileBuffer))
         [0..<tilesPerSide (tileConfigs ! z)] = Inl e'"
    by (rule for_each_fails [of x]) (use assms(5,6) in simp_all)
  then obtain e1 where "for_each (\<lambda>x.
         case mkTile faceImageData x y (tileConfigs ! z) (cfg_size (tileConfigs ! z)) of
           Inl e \<Rightarrow> Inl e
         | Inr tileBuffer \<Rightarrow> Inr ((z, faceNames ! face, y, x), tileBuffer))
         [0..<tilesPerSide (tileConfigs ! z)] = Inl e1" by blast
  then have "\<exists>e'. sliceFace mkTile faceImageData (tileConfigs ! z) (cfg_size (tileConfigs ! z)) z (faceNames ! face) = Inl e'"
    unfolding sliceFace_def
    by (intro for_each_fails [of y]) (use assms(4) in simp_all)
  then obtain e2 where "(case generateCubeFace img (int face) (cfg_size (tileConfigs ! z)) of
                    Inl e \<Rightarrow> Inl e
                  | Inr faceImageData \<Rightarrow>
                      sliceFace mkTile faceImageData (tileConfigs ! z) (cfg_size (tileConfigs ! z)) z (faceNames ! face)) = Inl e2"
    using assms(3) by auto
  then have "\<exists>e'. for_each (\<lambda>face.
                  case generateCubeFace img (int face) (cfg_size (tileConfigs ! z)) of
                    Inl e \<Rightarrow> Inl e
                  | Inr faceImageData \<Rightarrow>
                      sliceFace mkTile faceImageData (tileConfigs ! z) (cfg_size (tileConfigs ! z)) z (faceNames ! face))
                  [0..<6] = Inl e'"
    by (intro for_each_fails [of face]) (use assms(2) in simp_all)
  then obtain e3 where "for_each (\<lambda>face.
                  case generateCubeFace img (int face) (cfg_size (tileConfigs ! z)) of
                    Inl e \<Rightarrow> Inl e
                  | Inr faceImageData \<Rightarrow>
                      sliceFace mkTile faceImageData (tileConfigs ! z) (cfg_size (tileConfigs ! z)) z (faceNames ! face))
                  [0..<6] = Inl e3" by blast
  then have "\<exists>e'. for_each (\<lambda>z.
             for_each (\<lambda>face.
                  case generateCubeFace img (int face) (cfg_size (tileConfigs ! z)) of
                    Inl e \<Rightarrow> Inl e
                  | Inr faceImageData \<Rightarrow>
                      sliceFace mkTile faceImageData (tileConfigs ! z) (cfg_size (tileConfigs ! z)) z (faceNames ! face))
                  [0..<6])
             [0..<nat (int (length tileConfigs) - 1 + 1)] = Inl e'"
    by (intro for_each_fails [of z]) (use assms(1) in simp_all)
  then show ?thesis
    unfolding processImage_with_def Let_def by auto
qed

text \<open>
  The encoding of \<open>src/app/page.tsx\<close>. For a tile size that is not 0, \<open>createTile\<close>
  encodes the tile at quality 1.0 and, when that fails, once more at quality 0.9, and
  fails when both do; a conversion that succeeds holds as many tiles as it counted,
  none is left out; and a tile of the pyramid that fails both attempts ends the whole
  conversion with an error.
\<close>

theorem page_tsx_encode_retry:
  assumes "0 < cfg_tileSize config"
  shows "createTile convertToBlob faceImageData x y config faceSize =
     (case convertToBlob (createTile_tileData faceImageData x y config faceSize) 1 of
        Some blob \<Rightarrow> Inr blob
      | None \<Rightarrow>
         (case convertToBlob (createTile_tileData faceImageData x y config faceSize) (9 / 10) of
            Some blob \<Rightarrow> Inr blob
          | None \<Rightarrow> Inl EncodingError)) \<and>
     (\<forall>img r. processImage convertToBlob img = Inr r \<longrightarrow> length (zipBuffer r) = totalTiles r) \<and>
     (\<forall>img z face fd tx ty e.
        z < length tileConfigs \<and> face < 6 \<and>
        generateCubeFace img (int face) (cfg_size (tileConfigs ! z)) = Inr fd \<and>
        ty < tilesPerSide (tileConfigs ! z) \<and> tx < tilesPerSide (tileConfigs ! z) \<and>
        createTile convertToBlob fd tx ty (tileConfigs ! z) (cfg_size (tileConfigs ! z)) = Inl e \<longrightarrow>
        (\<exists>e'. processImage convertToBlob img = Inl e'))"
proof (intro conjI allI impI)
  show "createTile convertToBlob faceImageData x y config faceSize =
     (case convertToBlob (createTile_tileData faceImageData x y config faceSize) 1 of
        Some blob \<Rightarrow> Inr blob
      | None \<Rightarrow>
         (case convertToBlob (createTile_tileData faceImageData x y config faceSize) (9 / 10) of
            Some blob \<Rightarrow> Inr blob
          | None \<Rightarrow> Inl EncodingError))"
    using assms by (rule createTile_attempts)
next
  fix img r
  assume "processImage convertToBlob img = Inr r"
  then show "length (zipBuffer r) = totalTiles r"
    unfolding processImage_def by (rule processImage_with_no_tile_omitted)
next
  fix img z face fd tx ty e
  assume a: "z < length tileConfigs \<and> face < 6 \<and>
        generateCubeFace img (int face) (cfg_size (tileConfigs ! z)) = Inr fd \<and>
        ty < tilesPerSide (tileConfigs ! z) \<and> tx < tilesPerSide (tileConfigs ! z) \<and>
        createTile convertToBlob fd tx ty (tileConfigs ! z) (cfg_size (tileConfigs ! z)) = Inl e"
  show "\<exists>e'. processImage convertToBlob img = Inl e'"
    unfolding processImage_def
    by (rule processImage_with_tile_failure_fatal [of z face img fd ty tx]) (use a in simp_all)
qed

theorem page_tsx_encode_retry_witness:
  "0 < cfg_tileSize cfg_3_2 \<and>
   createTile reject_full_quality face3 0 0 cfg_3_2 3 = Inr (createTile_tileData face3 0 0 cfg_3_2 3) \<and>
   (\<exists>r. processImage reject_full_quality flat4x2 = Inr r \<and> length (zipBuffer r) = 132)"
proof -
  have ts: "0 < cfg_tileSize cfg_3_2" by (simp add: cfg_3_2_def)
  note T = page_tsx_encode_retry [OF ts, of reject_full_quality face3 0 0 3]
  have a: "createTile reject_full_quality face3 0 0 cfg_3_2 3 = Inr (createTile_tileData face3 0 0 cfg_3_2 3)"
    unfolding T [THEN conjunct1] by (simp add: reject_full_quality_def)
  have "\<exists>b. createTile reject_full_quality faceImageData x y config faceSize = Inr b"
    if "0 < cfg_tileSize config" for faceImageData x y config faceSize
    unfolding createTile_attempts [OF that] by (simp add: reject_full_quality_def)
  then obtain r where r: "processImage reject_full_quality flat4x2 = Inr r"
    unfolding processImage_def using processImage_with_total [of "createTile reject_full_quality" flat4x2]
    by blast
  from T [THEN conjunct2, THEN conjunct1, rule_format, OF r]
  have "length (zipBuffer r) = totalTiles r" .
  moreover from r have "totalTiles r = 132"
    unfolding processImage_def by (auto dest: processImage_with_counts)
  ultimately have "\<exists>r. processImage reject_full_quality flat4x2 = Inr r \<and> length (zipBuffer r) = 132"
    using r by auto
  with ts a show ?thesis by blast
qed

text \<open>
  Claim C6 against \<open>src/unnamed/part_000\<close>. With an encoder that fails at quality 1.0
  and works at quality 0.9, \<open>createTile\<close> of \<open>part_000\<close> fails at once and the whole
  conversion with it: there is no second attempt. \<open>createTile\<close> of \<open>src/app/page.tsx\<close>
  returns the tile of the second attempt on the same input, and the conversion
  succeeds.
\<close>

theorem part000_encodes_once:
  "createTile_part000 reject_full_quality face3 0 0 cfg_3_2 3 = Inl EncodingError \<and>
   createTile reject_full_quality face3 0 0 cfg_3_2 3 = Inr (createTile_tileData face3 0 0 cfg_3_2 3) \<and>
   processImage_part000 reject_full_quality flat4x2 = Inl EncodingError \<and>
   (\<exists>r. processImage reject_full_quality flat4x2 = Inr r)"
proof -
  have ts: "0 < cfg_tileSize cfg_3_2" by (simp add: cfg_3_2_def)
  have a: "createTile_part000 reject_full_quality face3 0 0 cfg_3_2 3 = Inl EncodingError"
    by (rule createTile_part000_no_retry [OF ts]) (simp add: reject_full_quality_def)
  have b: "createTile reject_full_quality face3 0 0 cfg_3_2 3 = Inr (createTile_tileData face3 0 0 cfg_3_2 3)"
    unfolding createTile_attempts [OF ts] by (simp add: reject_full_quality_def)
  have ts0: "0 < cfg_tileSize (tileConfigs ! 0)" by (simp add: tileConfigs_def)
  have c: "processImage_part000 reject_full_quality flat4x2 = Inl EncodingError"
    unfolding processImage_part000_def
    by (rule processImage_with_first_fails, rule createTile_part000_no_retry [OF ts0])
       (simp add: reject_full_quality_def)
  have "\<exists>b. createTile reject_full_quality faceImageData x y config faceSize = Inr b"
    if "0 < cfg_tileSize config" for faceImageData x y config faceSize
    unfolding createTile_attempts [OF that] by (simp add: reject_full_quality_def)
  then have d: "\<exists>r. processImage reject_full_quality flat4x2 = Inr r"
    unfolding processImage_def by (rule processImage_with_total)
  from a b c d show ?thesis by blast
qed

end
